theory Spec2Isabelle
  imports Main "HOL-Library.Word"
begin

unbundle bit_operations_syntax

chapter \<open>A model of the hashi reconciliation pipeline\<close>

text \<open>
  The JavaScript sources are embedded function by function. A JavaScript string is a
  \<open>string\<close>; a \<open>char\<close> stands for the UTF-16 code unit of the same number, so the
  model covers strings of code units below 256. A thrown value is an \<open>Error\<close> object,
  kept by its message. Network, file system and library calls are parameters of the
  functions that make them.
\<close>

section \<open>JavaScript strings\<close>

text \<open>White space as \<open>String.prototype.trim\<close> and \<open>parseInt\<close> skip it (TAB, LF, VT, FF,
  CR, SP, NBSP among the code units below 256).\<close>

definition js_whitespace :: "char \<Rightarrow> bool" where
  "js_whitespace c = (of_char c \<in> {9, 10, 11, 12, 13, 32, 160 :: nat})"

definition is_digit :: "char \<Rightarrow> bool" where
  "is_digit c = (48 \<le> (of_char c :: nat) \<and> (of_char c :: nat) \<le> 57)"

definition digit_val :: "char \<Rightarrow> int" where
  "digit_val c = int (of_char c) - 48"

definition digits_value :: "string \<Rightarrow> int" where
  "digits_value ds = foldl (\<lambda>a c. 10 * a + digit_val c) 0 ds"

text \<open>The numbers that \<open>Number.parseInt\<close> returns: NaN, an integer that is a double,
  or an infinity.\<close>

datatype js_number = NaN | Finite int | PosInfinity | NegInfinity

text \<open>The double nearest to an integer \<open>n \<ge> 0\<close>, ties to the even significand: below
  \<open>2^53\<close> the integer itself, above it the 53 leading bits rounded. \<open>excess_bits n\<close> is the
  number of bits of \<open>n\<close> beyond 53. \<open>None\<close> is the overflow to Infinity.\<close>

function excess_bits :: "int \<Rightarrow> nat" where
  "excess_bits n = (if n < 2 ^ 53 then 0 else Suc (excess_bits (n div 2)))"
  by pat_completeness auto
termination
  by (relation "measure nat") auto

declare excess_bits.simps [simp del]

definition nearest_double :: "int \<Rightarrow> int option" where
  "nearest_double n =
     (if n < 2 ^ 53 then Some n
      else (let e = excess_bits n;
                q = n div 2 ^ e;
                r = n mod 2 ^ e;
                q' = (if 2 ^ e < 2 * r \<or> (2 * r = 2 ^ e \<and> odd q) then q + 1 else q)
            in if q' * 2 ^ e < 2 ^ 1024 then Some (q' * 2 ^ e) else None))"

definition to_number :: "int \<Rightarrow> js_number" where
  "to_number i =
     (if i < 0
      then (case nearest_double (- i) of Some n \<Rightarrow> Finite (- n) | None \<Rightarrow> NegInfinity)
      else (case nearest_double i of Some n \<Rightarrow> Finite n | None \<Rightarrow> PosInfinity))"

text \<open>\<open>Number.parseInt(str, 10)\<close>: leading white space is skipped, one sign is read, then
  the longest run of decimal digits; what follows the digits is ignored. Without a digit
  the result is NaN, else the double nearest to the signed value of the digits. (Beyond
  20 significant digits the language lets an implementation read the later digits as
  zeros; the model reads them all.)\<close>

definition parseInt :: "string \<Rightarrow> js_number" where
  "parseInt str =
     (let s = dropWhile js_whitespace str;
          sign = (case s of c # _ \<Rightarrow> if c = CHR ''-'' then - 1 else 1 | [] \<Rightarrow> (1::int));
          s' = (case s of c # r \<Rightarrow> if c = CHR ''-'' \<or> c = CHR ''+'' then r else s | [] \<Rightarrow> s);
          z = takeWhile is_digit s'
      in if z = [] then NaN else to_number (sign * digits_value z))"

text \<open>\<open>str.split(sep)\<close> for a separator of one character: never empty, \<open>''''\<close> gives
  \<open>['''']\<close>.\<close>

fun split :: "char \<Rightarrow> string \<Rightarrow> string list" where
  "split sep [] = [[]]"
| "split sep (c # cs) =
     (if c = sep then [] # split sep cs
      else (case split sep cs of p # ps \<Rightarrow> (c # p) # ps | [] \<Rightarrow> [[c]]))"

definition trim :: "string \<Rightarrow> string" where
  "trim s = rev (dropWhile js_whitespace (rev (dropWhile js_whitespace s)))"

definition startsWith :: "string \<Rightarrow> string \<Rightarrow> bool" where
  "startsWith s p = (take (length p) s = p)"

definition endsWith :: "string \<Rightarrow> string \<Rightarrow> bool" where
  "endsWith s p = (length p \<le> length s \<and> drop (length s - length p) s = p)"

fun js_includes :: "string \<Rightarrow> string \<Rightarrow> bool" where
  "js_includes [] p = (p = [])"
| "js_includes (c # cs) p = (startsWith (c # cs) p \<or> js_includes cs p)"

text \<open>\<open>s.replace(/\.$/, '')\<close>: one trailing dot is removed.\<close>

definition strip_trailing_dot :: "string \<Rightarrow> string" where
  "strip_trailing_dot s = (if s \<noteq> [] \<and> last s = CHR ''.'' then butlast s else s)"

text \<open>\<open>s.replace(p, '')\<close> for a string pattern: the first occurrence is removed.\<close>

fun remove_first :: "string \<Rightarrow> string \<Rightarrow> string" where
  "remove_first [] p = []"
| "remove_first (c # cs) p =
     (if startsWith (c # cs) p then drop (length p) (c # cs) else c # remove_first cs p)"

definition to_lower_char :: "char \<Rightarrow> char" where
  "to_lower_char c =
     (let n = (of_char c :: nat)
      in if (65 \<le> n \<and> n \<le> 90) \<or> (192 \<le> n \<and> n \<le> 222 \<and> n \<noteq> 215)
         then char_of (n + 32) else c)"

definition toLowerCase :: "string \<Rightarrow> string" where
  "toLowerCase s = map to_lower_char s"

section \<open>Subnet utilities (src/core/topology.js)\<close>

text \<open>\<open>ipToNumber\<close>: the loop \<open>num = (num << 8) + val\<close> and the final \<open>num >>> 0\<close> compute
  modulo \<open>2^32\<close>, here on \<open>32 word\<close>. \<open>None\<close> is the source's \<open>null\<close>; NaN and the
  infinities fail the test on \<open>val\<close>.\<close>

fun ipToNumber_loop :: "32 word \<Rightarrow> string list \<Rightarrow> 32 word option" where
  "ipToNumber_loop num [] = Some num"
| "ipToNumber_loop num (part # rest) =
     (case parseInt part of
        Finite val \<Rightarrow>
          if val < 0 \<or> val > 255 then None
          else ipToNumber_loop (push_bit 8 num + word_of_int val) rest
      | _ \<Rightarrow> None)"

definition ipToNumber :: "string \<Rightarrow> 32 word option" where
  "ipToNumber ip =
     (let parts = split CHR ''.'' ip
      in if length parts \<noteq> 4 then None else ipToNumber_loop 0 parts)"

text \<open>\<open>~((1 << (32 - prefix)) - 1) >>> 0\<close>. The difference \<open>32 - prefix\<close> is a double
  again; \<open><<\<close> converts its count to an unsigned 32-bit integer and takes it modulo 32, so
  that NaN and the infinities shift by 0. \<open>prefixStr\<close> is \<open>undefined\<close> when the subnet has
  no slash, and \<open>parseInt(undefined)\<close> is NaN.\<close>

definition subnet_mask :: "js_number \<Rightarrow> 32 word" where
  "subnet_mask prefix =
     (let count = (case prefix of
                     Finite p \<Rightarrow>
                       (case to_number (32 - p) of Finite d \<Rightarrow> nat (d mod 32) | _ \<Rightarrow> 0)
                   | _ \<Rightarrow> 0)
      in NOT (push_bit count 1 - 1))"

definition ipInSubnet :: "string \<Rightarrow> string \<Rightarrow> bool" where
  "ipInSubnet ip subnet =
     (let parts = split CHR ''/'' subnet;
          subnetIp = hd parts;
          prefix = (case tl parts of [] \<Rightarrow> NaN | prefixStr # _ \<Rightarrow> parseInt prefixStr);
          ipNum = ipToNumber ip;
          subnetNum = ipToNumber subnetIp
      in case (ipNum, subnetNum) of
           (Some i, Some s) \<Rightarrow> (i AND subnet_mask prefix) = (s AND subnet_mask prefix)
         | _ \<Rightarrow> False)"

text \<open>The test of \<open>ipToSubnet\<close> on every part.\<close>

definition octet_ok :: "string \<Rightarrow> bool" where
  "octet_ok part = (case parseInt part of Finite n \<Rightarrow> 0 \<le> n \<and> n \<le> 255 | _ \<Rightarrow> False)"

definition ipToSubnet :: "string \<Rightarrow> string option" where
  "ipToSubnet ip =
     (let parts = split CHR ''.'' ip
      in if length parts \<noteq> 4 then None
         else if \<not> list_all octet_ok parts then None
         else Some (parts ! 0 @ ''.'' @ parts ! 1 @ ''.'' @ parts ! 2 @ ''.0/24''))"

section \<open>Protocol and port detection (GatusConfigGenerator)\<close>

definition PORT_PROTOCOLS :: "(int \<times> string) list" where
  "PORT_PROTOCOLS =
     [(8443, ''https''), (8006, ''https''), (8080, ''http''), (587, ''starttls''),
      (465, ''tls''), (993, ''tls''), (443, ''https''), (80, ''http''), (123, ''udp''),
      (53, ''dns''), (21, ''tcp'')]"

definition CHECK_ORDER :: "int list" where
  "CHECK_ORDER = [8443, 8006, 8080, 21, 443, 80, 587, 465, 993, 123, 53]"

text \<open>\<open>portOverrides\<close> is a plain object (from the YAML configuration, or \<open>{}\<close>), and
  \<open>this.portOverrides[subdomain]\<close> is a property read: an own property (a configured
  override, a number) or, for the property names of \<open>Object.prototype\<close>, the inherited
  member, which is not \<open>undefined\<close> either.\<close>

datatype port_value = Number int | Inherited string

definition Object_prototype_names :: "string list" where
  "Object_prototype_names =
     [''constructor'', ''__defineGetter__'', ''__defineSetter__'', ''hasOwnProperty'',
      ''__lookupGetter__'', ''__lookupSetter__'', ''isPrototypeOf'',
      ''propertyIsEnumerable'', ''toString'', ''valueOf'', ''__proto__'',
      ''toLocaleString'']"

definition object_get :: "(string \<rightharpoonup> int) \<Rightarrow> string \<Rightarrow> port_value option" where
  "object_get obj key =
     (case obj key of
        Some n \<Rightarrow> Some (Number n)
      | None \<Rightarrow> if key \<in> set Object_prototype_names then Some (Inherited key) else None)"

text \<open>\<open>PORT_PROTOCOLS[port] || 'tcp'\<close>. An inherited member used as a key is converted to
  its source text, which names no property of the table.\<close>

fun protocol_for :: "port_value \<Rightarrow> string" where
  "protocol_for (Number p) = (case map_of PORT_PROTOCOLS p of Some s \<Rightarrow> s | None \<Rightarrow> ''tcp'')"
| "protocol_for (Inherited _) = ''tcp''"

record detection =
  det_protocol :: string
  det_port :: port_value

text \<open>The scan of \<open>CHECK_ORDER\<close>. \<open>checkPort host port\<close> is the outcome of the TCP connect;
  the second component records every probe made, in order.\<close>

fun scan_ports ::
  "(string \<Rightarrow> int \<Rightarrow> bool) \<Rightarrow> string \<Rightarrow> int list \<Rightarrow> (string \<times> int) list
   \<Rightarrow> detection \<times> (string \<times> int) list" where
  "scan_ports checkPort target [] probes =
     (\<lparr>det_protocol = ''icmp'', det_port = Number 0\<rparr>, probes)"
| "scan_ports checkPort target (p # ps) probes =
     (if checkPort target p
      then (\<lparr>det_protocol = protocol_for (Number p), det_port = Number p\<rparr>,
            probes @ [(target, p)])
      else scan_ports checkPort target ps (probes @ [(target, p)]))"

definition detectProtocolAndPort ::
  "(string \<rightharpoonup> int) \<Rightarrow> (string \<Rightarrow> int \<Rightarrow> bool) \<Rightarrow> string \<Rightarrow> string
   \<Rightarrow> detection \<times> (string \<times> int) list" where
  "detectProtocolAndPort portOverrides checkPort target subdomain =
     (case (if subdomain \<noteq> [] then object_get portOverrides subdomain else None) of
        Some port \<Rightarrow> (\<lparr>det_protocol = protocol_for port, det_port = port\<rparr>, [])
      | None \<Rightarrow> scan_ports checkPort target CHECK_ORDER [])"

section \<open>Resource directory client (PangolinAPI)\<close>

text \<open>A parsed JSON response. \<open>JSON.parse\<close> keeps the last of two members with the same
  name, so an object is read from the end of its member list.\<close>

datatype json =
    JNull
  | JBool bool
  | JNumber int
  | JString string
  | JArray "json list"
  | JObject "(string \<times> json) list"

datatype js_error = JsError string

fun message :: "js_error \<Rightarrow> string" where
  "message (JsError m) = m"

fun truthy :: "json \<Rightarrow> bool" where
  "truthy JNull = False"
| "truthy (JBool b) = b"
| "truthy (JNumber n) = (n \<noteq> 0)"
| "truthy (JString s) = (s \<noteq> [])"
| "truthy (JArray xs) = True"
| "truthy (JObject kvs) = True"

fun isArray :: "json \<Rightarrow> bool" where
  "isArray (JArray xs) = True"
| "isArray v = False"

text \<open>\<open>typeof v === 'object'\<close> holds for \<open>null\<close>, arrays and objects.\<close>

fun typeof_object :: "json \<Rightarrow> bool" where
  "typeof_object JNull = True"
| "typeof_object (JArray xs) = True"
| "typeof_object (JObject kvs) = True"
| "typeof_object v = False"

text \<open>The property reads \<open>v.key\<close> and \<open>v?.key\<close> for the member names the client reads
  (\<open>data\<close>, \<open>orgs\<close>, \<open>resources\<close>, \<open>targets\<close>, \<open>orgId\<close>, \<open>id\<close>, \<open>name\<close>, \<open>length\<close>). An
  array and a string have \<open>length\<close>; no other of these names is a member of a string, a
  number, a boolean, an array or \<open>Object.prototype\<close>. \<open>None\<close> is \<open>undefined\<close>; a read on
  \<open>null\<close> throws a TypeError, an optional read on \<open>null\<close> or \<open>undefined\<close> is \<open>undefined\<close>.\<close>

fun get_property :: "json \<Rightarrow> string \<Rightarrow> js_error + json option" where
  "get_property JNull key = Inl (JsError ''Cannot read properties of null'')"
| "get_property (JObject kvs) key = Inr (map_of (rev kvs) key)"
| "get_property (JArray xs) key =
     Inr (if key = ''length'' then Some (JNumber (int (length xs))) else None)"
| "get_property (JString s) key =
     Inr (if key = ''length'' then Some (JNumber (int (length s))) else None)"
| "get_property v key = Inr None"

fun optional_get :: "json option \<Rightarrow> string \<Rightarrow> json option" where
  "optional_get (Some (JObject kvs)) key = map_of (rev kvs) key"
| "optional_get v key = None"

text \<open>Truthiness and \<open>a || b\<close> on values that may be \<open>undefined\<close>.\<close>

definition is_truthy :: "json option \<Rightarrow> bool" where
  "is_truthy a = (case a of Some v \<Rightarrow> truthy v | None \<Rightarrow> False)"

definition js_or :: "json option \<Rightarrow> json option \<Rightarrow> json option" where
  "js_or a b = (if is_truthy a then a else b)"

text \<open>A template literal converts every interpolated value to a string. The conversion
  of an object calls its member \<open>toString\<close>, then \<open>valueOf\<close>, and throws a TypeError when
  neither gives a primitive value: this is the case of a parsed object with a member
  named \<open>toString\<close>, which is no function and hides the inherited one, while the inherited
  \<open>valueOf\<close> returns the object itself. The conversion of an array joins the conversions
  of its elements other than \<open>null\<close>. Every other value, \<open>undefined\<close> too, has a string.
  The model keeps whether the literal throws, not the string.\<close>

fun unconvertible :: "json \<Rightarrow> bool" where
  "unconvertible (JArray xs) = list_ex (\<lambda>x. x \<noteq> JNull \<and> unconvertible x) xs"
| "unconvertible (JObject members) = (''toString'' \<in> fst ` set members)"
| "unconvertible v = False"

definition template :: "json option list \<Rightarrow> js_error + unit" where
  "template vs =
     (if list_ex (\<lambda>v. case v of Some x \<Rightarrow> unconvertible x | None \<Rightarrow> False) vs
      then Inl (JsError ''Cannot convert object to primitive value'')
      else Inr ())"

text \<open>Sequencing of two computations that may throw.\<close>

definition and_then :: "js_error + 'a \<Rightarrow> ('a \<Rightarrow> js_error + 'b) \<Rightarrow> js_error + 'b" where
  "and_then m f = (case m of Inl e \<Rightarrow> Inl e | Inr v \<Rightarrow> f v)"

text \<open>The selection of the result in the three list operations, for the member name
  \<open>key\<close>: the tests on \<open>data\<close> in the order of the source (they are written from the last
  to the first so that each can name the ones after it; none of them has an effect).
  \<open>typeof null\<close> is \<open>'object'\<close>, so that \<open>data.data\<close> throws on a \<open>null\<close> response.\<close>

definition select_list :: "string \<Rightarrow> json \<Rightarrow> js_error + json" where
  "select_list key data =
     (if isArray data then Inr data
      else if typeof_object data then
        and_then (get_property data ''data'') (\<lambda>d.
          Inr (let direct = (case optional_get (Some data) key of
                               Some found \<Rightarrow> if truthy found then found else JArray []
                             | None \<Rightarrow> JArray []);
                   simple = (case d of Some (JArray xs) \<Rightarrow> JArray xs | _ \<Rightarrow> direct)
               in case optional_get d key of
                    Some nested \<Rightarrow> if truthy nested then nested else simple
                  | None \<Rightarrow> simple))
      else Inr (JArray []))"

text \<open>The loop of \<open>listOrgs\<close> that logs every organization: \<open>org.orgId || org.id ||
  'unknown'\<close> and \<open>org.name || 'unnamed'\<close> are read (a read on a \<open>null\<close> element throws) and
  interpolated. \<open>for ... of\<close> iterates an array or the characters of a string, none of
  which has one of these members, and throws on any other value.\<close>

fun log_orgs :: "json list \<Rightarrow> js_error + unit" where
  "log_orgs [] = Inr ()"
| "log_orgs (org # rest) =
     and_then (get_property org ''orgId'') (\<lambda>first.
     and_then (if is_truthy first then Inr first else get_property org ''id'') (\<lambda>orgId.
     and_then (get_property org ''name'') (\<lambda>name.
     and_then (template [js_or orgId (Some (JString ''unknown'')),
                         js_or name (Some (JString ''unnamed''))]) (\<lambda>_.
     log_orgs rest))))"

fun for_of_orgs :: "json \<Rightarrow> js_error + unit" where
  "for_of_orgs (JArray xs) = log_orgs xs"
| "for_of_orgs (JString s) = Inr ()"
| "for_of_orgs v = Inl (JsError ''orgs is not iterable'')"

text \<open>The \<open>try\<close> blocks after the request. \<open>JSON.stringify(data)\<close> in the first log line of
  \<open>listOrgs\<close> does not throw on a parsed response. \<open>listOrgs\<close> and \<open>listResources\<close>
  interpolate the \<open>length\<close> of the selection before they return it; \<open>getResourceTargets\<close>
  logs nothing.\<close>

definition listOrgs_try :: "json \<Rightarrow> js_error + json" where
  "listOrgs_try data =
     and_then (select_list ''orgs'' data) (\<lambda>orgs.
     and_then (get_property orgs ''length'') (\<lambda>len.
     and_then (template [len]) (\<lambda>_.
     and_then (for_of_orgs orgs) (\<lambda>_.
     Inr orgs))))"

definition listResources_try :: "json \<Rightarrow> js_error + json" where
  "listResources_try data =
     and_then (select_list ''resources'' data) (\<lambda>resources.
     and_then (get_property resources ''length'') (\<lambda>len.
     and_then (template [len]) (\<lambda>_.
     Inr resources)))"

definition getResourceTargets_try :: "json \<Rightarrow> js_error + json" where
  "getResourceTargets_try data = select_list ''targets'' data"

text \<open>\<open>listOrgs\<close>, \<open>listResources\<close> and \<open>getResourceTargets\<close> take the outcome of the
  request (\<open>Inl\<close> when it throws) and catch every error of their \<open>try\<close> block.\<close>

definition listOrgs :: "js_error + json \<Rightarrow> json" where
  "listOrgs response =
     (case and_then response listOrgs_try of Inl error \<Rightarrow> JArray [] | Inr orgs \<Rightarrow> orgs)"

definition listResources :: "js_error + json \<Rightarrow> json" where
  "listResources response =
     (case and_then response listResources_try of
        Inl error \<Rightarrow> JArray []
      | Inr resources \<Rightarrow> resources)"

definition getResourceTargets :: "js_error + json \<Rightarrow> json" where
  "getResourceTargets response =
     (case and_then response getResourceTargets_try of
        Inl error \<Rightarrow> JArray []
      | Inr targets \<Rightarrow> targets)"

text \<open>The shape policy in the words of the specification: an array is the result; in an
  object, the value under \<open>data.key\<close> if present, else \<open>data\<close> if it is an array, else
  the value under \<open>key\<close> if present; else the empty list. A value is present when the
  member exists and is truthy (the empty array is).\<close>

definition present :: "json option \<Rightarrow> json option" where
  "present m = (case m of Some v \<Rightarrow> if truthy v then Some v else None | None \<Rightarrow> None)"

definition shape_policy :: "string \<Rightarrow> json \<Rightarrow> json" where
  "shape_policy key v =
     (case v of
        JArray xs \<Rightarrow> JArray xs
      | JObject members \<Rightarrow>
          (case present (case map_of (rev members) ''data'' of
                           Some (JObject inner) \<Rightarrow> map_of (rev inner) key
                         | _ \<Rightarrow> None) of
             Some nested \<Rightarrow> nested
           | None \<Rightarrow>
               (case map_of (rev members) ''data'' of
                  Some (JArray ys) \<Rightarrow> JArray ys
                | _ \<Rightarrow>
                    (case present (map_of (rev members) key) of
                       Some found \<Rightarrow> found
                     | None \<Rightarrow> JArray [])))
      | _ \<Rightarrow> JArray [])"

text \<open>The selections whose logging does not throw: in \<open>listResources\<close> the \<open>length\<close> of
  the selection has a string; in \<open>listOrgs\<close>, moreover, the loop over it runs through.\<close>

definition length_logged :: "json \<Rightarrow> bool" where
  "length_logged v = (and_then (get_property v ''length'') (\<lambda>len. template [len]) = Inr ())"

definition loggable :: "json \<Rightarrow> bool" where
  "loggable v = (length_logged v \<and> for_of_orgs v = Inr ())"

section \<open>Topology resolver (utils/dns.js, core/topology.js)\<close>

definition MAX_RETRIES :: nat where
  "MAX_RETRIES = 3"

definition RETRY_DELAY_MS :: nat where
  "RETRY_DELAY_MS = 2000"

definition TIMEOUT_MS :: nat where
  "TIMEOUT_MS = 10000"

text \<open>What a call of \<open>queryTXT\<close> does on the network, in order: an attempt (one call of
  \<open>queryTXTOnce\<close>, which opens its own socket and starts its own timer of the given number
  of milliseconds) or a sleep.\<close>

datatype dns_event = Attempt nat | Sleep nat

text \<open>The retrying \<open>queryTXT\<close>. \<open>queryTXTOnce n\<close> is the outcome of the \<open>n\<close>-th attempt:
  the TXT payload, or the error of a timeout, of the socket or of the decoder. The value
  thrown in the end is \<open>lastError\<close>, which starts as \<open>null\<close> (\<open>None\<close>).\<close>

function queryTXT_loop ::
  "(nat \<Rightarrow> js_error + string) \<Rightarrow> nat \<Rightarrow> js_error option \<Rightarrow> dns_event list
   \<Rightarrow> (js_error option + string) \<times> dns_event list" where
  "queryTXT_loop queryTXTOnce attempt lastError events =
     (if attempt \<le> MAX_RETRIES then
        (case queryTXTOnce attempt of
           Inr txt \<Rightarrow> (Inr txt, events @ [Attempt TIMEOUT_MS])
         | Inl err \<Rightarrow>
             queryTXT_loop queryTXTOnce (attempt + 1) (Some err)
               (events @ [Attempt TIMEOUT_MS]
                  @ (if attempt < MAX_RETRIES then [Sleep RETRY_DELAY_MS] else [])))
      else (Inl lastError, events))"
  by pat_completeness auto
termination
  by (relation "measure (\<lambda>(q, attempt, e, ev). MAX_RETRIES + 1 - attempt)") auto

definition queryTXT ::
  "(nat \<Rightarrow> js_error + string) \<Rightarrow> (js_error option + string) \<times> dns_event list" where
  "queryTXT queryTXTOnce = queryTXT_loop queryTXTOnce 1 None []"

text \<open>\<open>queryTXT\<close> of src/utils/dns.js, which \<open>topology.js\<close> imports by path: one attempt
  with a timer of 5000 ms, no retry.\<close>

definition queryTXT_no_retry ::
  "(nat \<Rightarrow> js_error + string) \<Rightarrow> (js_error option + string) \<times> dns_event list" where
  "queryTXT_no_retry attempt =
     (case attempt 1 of
        Inr txt \<Rightarrow> (Inr txt, [Attempt 5000])
      | Inl err \<Rightarrow> (Inl (Some err), [Attempt 5000]))"

text \<open>\<open>obj[k] = v\<close> on an object whose property names are not array indices: a new name
  is added last, an old one keeps its place.\<close>

definition object_set :: "string \<Rightarrow> 'v \<Rightarrow> (string \<times> 'v) list \<Rightarrow> (string \<times> 'v) list" where
  "object_set k v obj =
     (if k \<in> fst ` set obj then map (\<lambda>(k', v'). if k' = k then (k', v) else (k', v')) obj
      else obj @ [(k, v)])"

type_synonym host_mapping = "(string \<times> string) list"

text \<open>The loop over the entries of the payload \<open>host1:ip1,host2:ip2,...\<close>.
  \<open>trimmed.split(':', 2)\<close> keeps the first two parts.\<close>

fun parse_entries :: "string list \<Rightarrow> host_mapping \<Rightarrow> js_error + host_mapping" where
  "parse_entries [] mapping = Inr mapping"
| "parse_entries (entry # rest) mapping =
     (let trimmed = trim entry
      in if \<not> js_includes trimmed '':'' then parse_entries rest mapping
         else (case take 2 (split CHR '':'' trimmed) of
                 [hostname, ip] \<Rightarrow>
                   (let cleanHostname = trim hostname; cleanIp = trim ip
                    in case ipToSubnet cleanIp of
                         Some subnet \<Rightarrow>
                           parse_entries rest (object_set (''on.'' @ cleanHostname) subnet mapping)
                       | None \<Rightarrow> parse_entries rest mapping)
               | _ \<Rightarrow> Inl (JsError ''Cannot read properties of undefined'')))"

text \<open>\<open>getHostSubnetMapping\<close> takes the outcome of \<open>await queryTXT(...)\<close>. Its catch
  block reads \<open>error.message\<close>, which throws when the value caught is \<open>null\<close>.\<close>

definition getHostSubnetMapping :: "js_error option + string \<Rightarrow> js_error + host_mapping" where
  "getHostSubnetMapping query =
     (case (case query of
              Inl thrown \<Rightarrow> Inl thrown
            | Inr txtData \<Rightarrow>
                (case parse_entries (split CHR '','' txtData) [] of
                   Inl e \<Rightarrow> Inl (Some e)
                 | Inr mapping \<Rightarrow> Inr mapping))
      of Inr mapping \<Rightarrow> Inr mapping
       | Inl (Some error) \<Rightarrow> Inr []
       | Inl None \<Rightarrow> Inl (JsError ''Cannot read properties of null''))"

section \<open>Zone client (HetznerDNS)\<close>

text \<open>The zone is a list of record sets (RRSets), each a name, a type and its values.
  The client reads it flattened, one record per value, with the id \<open>name:type\<close>.\<close>

record rrset =
  rr_name :: string
  rr_type :: string
  rr_ttl :: int
  rr_values :: "string list"

type_synonym zone = "rrset list"

record zone_record =
  rec_id :: string
  rec_name :: string
  rec_type :: string
  rec_value :: string
  rec_ttl :: int
  rec_zone_id :: string

text \<open>The zone service is outside the repository. It is modelled as that list with the
  four requests the client sends: the paginated listing (\<open>per_page\<close> is 100), the creation
  of a record set, \<open>set_records\<close> on a record set and the deletion of one. \<open>refuses\<close>
  says which requests the service answers with an error status for reasons of its own
  (authorization, rate limit, validation); it also answers with an error when a record set
  to create exists already, and when one to change or delete does not. \<open>None\<close> is the
  request that throws.\<close>

datatype zone_request =
    GetRRSets nat
  | PostRRSet string string int string
  | PostSetRecords string string string
  | DeleteRRSet string string

definition has_rrset :: "zone \<Rightarrow> string \<Rightarrow> string \<Rightarrow> bool" where
  "has_rrset z n t = (\<exists>rs \<in> set z. rr_name rs = n \<and> rr_type rs = t)"

definition rrsets_page :: "zone \<Rightarrow> nat \<Rightarrow> rrset list" where
  "rrsets_page z page = take 100 (drop (100 * (page - 1)) z)"

definition last_page :: "zone \<Rightarrow> nat" where
  "last_page z = (length z + 99) div 100"

definition zone_request_result :: "(zone_request \<Rightarrow> bool) \<Rightarrow> zone_request \<Rightarrow> zone \<Rightarrow> zone option" where
  "zone_request_result refuses req z =
     (if refuses req then None
      else case req of
        GetRRSets page \<Rightarrow> Some z
      | PostRRSet n t ttl v \<Rightarrow>
          if has_rrset z n t then None
          else Some (z @ [\<lparr>rr_name = n, rr_type = t, rr_ttl = ttl, rr_values = [v]\<rparr>])
      | PostSetRecords n t v \<Rightarrow>
          if has_rrset z n t
          then Some (map (\<lambda>rs. if rr_name rs = n \<and> rr_type rs = t then rs\<lparr>rr_values := [v]\<rparr> else rs) z)
          else None
      | DeleteRRSet n t \<Rightarrow>
          if has_rrset z n t
          then Some (filter (\<lambda>rs. \<not> (rr_name rs = n \<and> rr_type rs = t)) z)
          else None)"

text \<open>\<open>listRecords\<close>: the loop over the pages, until the page number reaches
  \<open>last_page || 1\<close>; any error gives the empty list.\<close>

definition flatten_rrset :: "string \<Rightarrow> rrset \<Rightarrow> zone_record list" where
  "flatten_rrset zoneId rs =
     map (\<lambda>v. \<lparr>rec_id = rr_name rs @ '':'' @ rr_type rs, rec_name = rr_name rs,
               rec_type = rr_type rs, rec_value = v, rec_ttl = rr_ttl rs,
               rec_zone_id = zoneId\<rparr>) (rr_values rs)"

function listRecords_from ::
  "(zone_request \<Rightarrow> bool) \<Rightarrow> zone \<Rightarrow> string \<Rightarrow> nat \<Rightarrow> zone_record list
   \<Rightarrow> js_error + zone_record list" where
  "listRecords_from refuses z zoneId page allRecords =
     (case zone_request_result refuses (GetRRSets page) z of
        None \<Rightarrow> Inl (JsError ''Hetzner DNS API error'')
      | Some _ \<Rightarrow>
          (let allRecords' = allRecords @ concat (map (flatten_rrset zoneId) (rrsets_page z page))
           in if page \<ge> (if last_page z = 0 then 1 else last_page z) then Inr allRecords'
              else listRecords_from refuses z zoneId (page + 1) allRecords'))"
  by pat_completeness auto
termination
  by (relation "measure (\<lambda>(refuses, z, zoneId, page, allRecords).
        (if last_page z = 0 then 1 else last_page z) - page)")
    (auto split: if_splits)

declare listRecords_from.simps [simp del]

definition listRecords :: "(zone_request \<Rightarrow> bool) \<Rightarrow> zone \<Rightarrow> string \<Rightarrow> zone_record list" where
  "listRecords refuses z zoneId =
     (case listRecords_from refuses z zoneId 1 [] of Inl e \<Rightarrow> [] | Inr records \<Rightarrow> records)"

text \<open>\<open>createRecord\<close>, \<open>updateRecord\<close> and \<open>deleteRecord\<close> return the zone after the
  request and the boolean they return to the caller. A CNAME value is sent with a
  trailing dot. \<open>deleteRecord\<close> takes the name and the type from the record id, split
  at the colons.\<close>

definition cname_final_value :: "string \<Rightarrow> string \<Rightarrow> string" where
  "cname_final_value recordType v =
     (if recordType = ''CNAME'' \<and> \<not> endsWith v ''.'' then v @ ''.'' else v)"

definition createRecord ::
  "(zone_request \<Rightarrow> bool) \<Rightarrow> zone \<Rightarrow> string \<Rightarrow> string \<Rightarrow> string \<Rightarrow> string \<Rightarrow> int \<Rightarrow> zone \<times> bool" where
  "createRecord refuses z zoneId n recordType v ttl =
     (case zone_request_result refuses (PostRRSet n recordType ttl (cname_final_value recordType v)) z of
        Some z' \<Rightarrow> (z', True)
      | None \<Rightarrow> (z, False))"

definition updateRecord ::
  "(zone_request \<Rightarrow> bool) \<Rightarrow> zone \<Rightarrow> string \<Rightarrow> string \<Rightarrow> string \<Rightarrow> string \<Rightarrow> string \<Rightarrow> int
   \<Rightarrow> zone \<times> bool" where
  "updateRecord refuses z recordId zoneId n recordType v ttl =
     (case zone_request_result refuses (PostSetRecords n recordType (cname_final_value recordType v)) z of
        Some z' \<Rightarrow> (z', True)
      | None \<Rightarrow> (z, False))"

definition deleteRecord :: "(zone_request \<Rightarrow> bool) \<Rightarrow> zone \<Rightarrow> string \<Rightarrow> string \<Rightarrow> zone \<times> bool" where
  "deleteRecord refuses z recordId zoneId =
     (let parts = split CHR '':'' recordId;
          n = hd parts;
          recordType = (case tl parts of [] \<Rightarrow> ''undefined'' | t # _ \<Rightarrow> t)
      in case zone_request_result refuses (DeleteRRSet n recordType) z of
           Some z' \<Rightarrow> (z', True)
         | None \<Rightarrow> (z, False))"

section \<open>Zone reconciler (DNSSync.syncHetznerDns)\<close>

record config =
  cfg_domain :: string
  ignoreSubdomains :: "string list"
  keepSubdomains :: "string list"
  hetznerZoneId :: string
  pangolinOrgId :: string

record pair =
  pair_name :: string
  pair_domain :: string
  pair_subdomain :: string
  pair_cname :: string
  pair_cname_full :: string
  pair_is_root :: bool
  pair_resource_name :: string
  pair_target :: string
  pair_port :: int
  pair_protocol :: string

definition getZoneId :: "config \<Rightarrow> js_error + string list \<Rightarrow> string option" where
  "getZoneId cfg zones_by_name =
     (if hetznerZoneId cfg \<noteq> [] then Some (hetznerZoneId cfg)
      else case zones_by_name of
             Inl e \<Rightarrow> None
           | Inr [] \<Rightarrow> None
           | Inr (zoneId # _) \<Rightarrow> Some zoneId)"

text \<open>The test that makes a CNAME record a managed one: its value, without the trailing
  dot, starts with \<open>on.\<close> or contains \<open>.on.\<close>.\<close>

definition references_topology :: "string \<Rightarrow> bool" where
  "references_topology v = (startsWith v ''on.'' \<or> js_includes v ''.on.'')"

text \<open>The two \<open>Map\<close>s of the reconciler, as lists of entries in insertion order:
  \<open>currentCnames\<close> from name to value and id, \<open>expectedCnames\<close> from name to target.\<close>

fun collect_currentCnames ::
  "zone_record list \<Rightarrow> (string \<times> string \<times> string) list \<Rightarrow> (string \<times> string \<times> string) list" where
  "collect_currentCnames [] currentCnames = currentCnames"
| "collect_currentCnames (r # rest) currentCnames =
     (if rec_type r \<noteq> ''CNAME'' then collect_currentCnames rest currentCnames
      else if references_topology (strip_trailing_dot (rec_value r))
      then collect_currentCnames rest
             (object_set (rec_name r) (strip_trailing_dot (rec_value r), rec_id r) currentCnames)
      else collect_currentCnames rest currentCnames)"

fun collect_expectedCnames ::
  "config \<Rightarrow> pair list \<Rightarrow> (string \<times> string) list \<Rightarrow> (string \<times> string) list" where
  "collect_expectedCnames cfg [] expectedCnames = expectedCnames"
| "collect_expectedCnames cfg (p # rest) expectedCnames =
     (if pair_subdomain p \<in> set (ignoreSubdomains cfg)
      then collect_expectedCnames cfg rest expectedCnames
      else if pair_is_root p \<and>
              (''@'' \<in> set (ignoreSubdomains cfg) \<or> [] \<in> set (ignoreSubdomains cfg)
               \<or> cfg_domain cfg \<in> set (ignoreSubdomains cfg))
      then collect_expectedCnames cfg rest expectedCnames
      else collect_expectedCnames cfg rest
             (object_set (if pair_is_root p then ''@'' else pair_subdomain p) (pair_cname_full p)
                expectedCnames))"

text \<open>The calls the reconciler makes on the zone client, with their arguments in the order
  of the source; each is logged with the boolean it returned.\<close>

datatype call =
    DeleteRecord string string
  | UpdateRecord string string string string string int
  | CreateRecord string string string string int

fun delete_orphans ::
  "(zone_request \<Rightarrow> bool) \<Rightarrow> config \<Rightarrow> string \<Rightarrow> (string \<times> string) list
   \<Rightarrow> (string \<times> string \<times> string) list \<Rightarrow> zone \<times> (call \<times> bool) list
   \<Rightarrow> zone \<times> (call \<times> bool) list" where
  "delete_orphans refuses cfg zoneId expectedCnames [] state = state"
| "delete_orphans refuses cfg zoneId expectedCnames ((n, v, i) # rest) (z, calls) =
     (if n \<notin> fst ` set expectedCnames then
        (if n \<in> set (keepSubdomains cfg)
         then delete_orphans refuses cfg zoneId expectedCnames rest (z, calls)
         else (case deleteRecord refuses z i zoneId of
                 (z', ok) \<Rightarrow>
                   delete_orphans refuses cfg zoneId expectedCnames rest
                     (z', calls @ [(DeleteRecord i zoneId, ok)])))
      else delete_orphans refuses cfg zoneId expectedCnames rest (z, calls))"

fun upsert_expected ::
  "(zone_request \<Rightarrow> bool) \<Rightarrow> string \<Rightarrow> (string \<times> string \<times> string) list
   \<Rightarrow> (string \<times> string) list \<Rightarrow> zone \<times> (call \<times> bool) list
   \<Rightarrow> zone \<times> (call \<times> bool) list" where
  "upsert_expected refuses zoneId currentCnames [] state = state"
| "upsert_expected refuses zoneId currentCnames ((n, target) # rest) (z, calls) =
     (case map_of currentCnames n of
        Some (v, i) \<Rightarrow>
          if v \<noteq> strip_trailing_dot target then
            (case updateRecord refuses z i zoneId n ''CNAME'' target 3600 of
               (z', ok) \<Rightarrow>
                 upsert_expected refuses zoneId currentCnames rest
                   (z', calls @ [(UpdateRecord i zoneId n ''CNAME'' target 3600, ok)]))
          else upsert_expected refuses zoneId currentCnames rest (z, calls)
      | None \<Rightarrow>
          (case createRecord refuses z zoneId n ''CNAME'' target 3600 of
             (z', ok) \<Rightarrow>
               upsert_expected refuses zoneId currentCnames rest
                 (z', calls @ [(CreateRecord zoneId n ''CNAME'' target 3600, ok)])))"

text \<open>\<open>syncHetznerDns\<close> returns the refreshed listing; the model adds the zone after
  the calls and the calls made.\<close>

definition syncHetznerDns ::
  "(zone_request \<Rightarrow> bool) \<Rightarrow> config \<Rightarrow> js_error + string list \<Rightarrow> pair list \<Rightarrow> zone
   \<Rightarrow> zone_record list \<times> zone \<times> (call \<times> bool) list" where
  "syncHetznerDns refuses cfg zones_by_name pangolinPairs z =
     (case getZoneId cfg zones_by_name of
        None \<Rightarrow> ([], z, [])
      | Some zoneId \<Rightarrow>
          if zoneId = [] then ([], z, [])
          else
            (let currentRecords = listRecords refuses z zoneId;
                 currentCnames = collect_currentCnames currentRecords [];
                 expectedCnames = collect_expectedCnames cfg pangolinPairs []
             in case delete_orphans refuses cfg zoneId expectedCnames currentCnames (z, []) of
                  (z1, calls1) \<Rightarrow>
                    (case upsert_expected refuses zoneId currentCnames expectedCnames (z1, calls1) of
                       (z2, calls2) \<Rightarrow> (listRecords refuses z2 zoneId, z2, calls2))))"

section \<open>Desired-state builder (DNSSync.getPangolinDomainCnamePairs)\<close>

text \<open>The resource directory as the builder reads it: what \<open>getOrgId\<close>, \<open>listResources\<close>
  and \<open>getResourceTargets\<close> returned, with the fields the builder uses. An element of a
  list is an object or \<open>null\<close> (\<open>None\<close>). A missing string is the empty string, a missing
  port is 0, \<open>tgt_enabled\<close> is \<open>Some False\<close> when \<open>enabled\<close> is \<open>false\<close>; \<open>res_resourceId\<close>
  is \<open>resourceId || id\<close>.\<close>

record target =
  tgt_ip :: string
  tgt_port :: int
  tgt_method :: string
  tgt_enabled :: "bool option"

record resource =
  res_resourceId :: string
  res_name :: string
  res_fullDomain :: string
  res_domain :: string
  res_subdomain :: string
  res_protocol :: string
  res_targets :: "target option list"

fun getCnameForIp :: "string \<Rightarrow> host_mapping \<Rightarrow> string option" where
  "getCnameForIp ip [] = None"
| "getCnameForIp ip ((cnamePrefix, subnet) # rest) =
     (if ipInSubnet ip subnet then Some cnamePrefix else getCnameForIp ip rest)"

text \<open>\<open>a || b\<close> on strings.\<close>

definition or_else :: "string \<Rightarrow> string \<Rightarrow> string" where
  "or_else a b = (if a \<noteq> [] then a else b)"

text \<open>\<open>targets.find(t => t.enabled !== false)\<close>: the callback reads \<open>t.enabled\<close>, which
  throws on a \<open>null\<close> element; the elements after the one found are not visited.\<close>

fun find_enabled :: "target option list \<Rightarrow> js_error + target option" where
  "find_enabled [] = Inr None"
| "find_enabled (None # rest) = Inl (JsError ''Cannot read properties of null'')"
| "find_enabled (Some t # rest) =
     (if tgt_enabled t \<noteq> Some False then Inr (Some t) else find_enabled rest)"

text \<open>\<open>targets.find(...) || targets[0]\<close>. When nothing is found every element has been
  visited, so \<open>targets[0]\<close> is an object if there is one; \<open>None\<close> is \<open>undefined\<close>, on
  which the read of \<open>target.ip\<close> throws.\<close>

definition select_target :: "target option list \<Rightarrow> js_error + target option" where
  "select_target targets =
     and_then (find_enabled targets) (\<lambda>found.
       case found of
         Some t \<Rightarrow> Inr (Some t)
       | None \<Rightarrow> (case targets of t # _ \<Rightarrow> Inr t | [] \<Rightarrow> Inr None))"

definition target_protocol :: "resource \<Rightarrow> target \<Rightarrow> int \<Rightarrow> string" where
  "target_protocol resource tgt targetPort =
     (let targetMethod = toLowerCase (tgt_method tgt)
      in if targetMethod = ''http'' \<or> targetMethod = ''https'' then targetMethod
         else (let resProto = toLowerCase (res_protocol resource)
               in if resProto = ''http'' \<or> resProto = ''https'' then resProto
                  else if targetPort = 443 \<or> targetPort = 8006 then ''https''
                  else if targetPort = 80 then ''http''
                  else ''tcp''))"

text \<open>The loop over the resources; \<open>pairs\<close> is the array the loop pushes to. The first
  read on a resource, \<open>resource.resourceId\<close>, throws on a \<open>null\<close> element.\<close>

fun build_pairs ::
  "config \<Rightarrow> (string \<Rightarrow> target option list) \<Rightarrow> host_mapping \<Rightarrow> resource option list
   \<Rightarrow> pair list \<Rightarrow> js_error + pair list" where
  "build_pairs cfg api_targets hostMapping [] pairs = Inr pairs"
| "build_pairs cfg api_targets hostMapping (None # rest) pairs =
     Inl (JsError ''Cannot read properties of null'')"
| "build_pairs cfg api_targets hostMapping (Some resource # rest) pairs =
     (let resourceName = or_else (res_name resource) ''Unknown'';
          domain0 = or_else (res_fullDomain resource)
                      (or_else (res_domain resource) (res_subdomain resource))
      in if domain0 = [] then build_pairs cfg api_targets hostMapping rest pairs
         else
           (let domain = (if endsWith domain0 (cfg_domain cfg) then domain0
                          else domain0 @ ''.'' @ cfg_domain cfg);
                fetched = api_targets (res_resourceId resource);
                targets = (if fetched = [] then res_targets resource else fetched)
            in if targets = [] then build_pairs cfg api_targets hostMapping rest pairs
               else
                 (case select_target targets of
                    Inl e \<Rightarrow> Inl e
                  | Inr None \<Rightarrow> Inl (JsError ''Cannot read properties of undefined'')
                  | Inr (Some tgt) \<Rightarrow>
                      (let targetIp = tgt_ip tgt;
                           targetPort = (if tgt_port tgt = 0 then 443 else tgt_port tgt);
                           targetProtocol = target_protocol resource tgt targetPort
                       in if targetIp = [] then build_pairs cfg api_targets hostMapping rest pairs
                          else
                            (case getCnameForIp targetIp hostMapping of
                               None \<Rightarrow> build_pairs cfg api_targets hostMapping rest pairs
                             | Some cname \<Rightarrow>
                                 if cname = []
                                 then build_pairs cfg api_targets hostMapping rest pairs
                                 else
                                   (let subdomain = remove_first domain (''.'' @ cfg_domain cfg);
                                        isRoot = (subdomain = cfg_domain cfg \<or> subdomain = [])
                                    in build_pairs cfg api_targets hostMapping rest
                                         (pairs @
                                          [\<lparr>pair_name = resourceName, pair_domain = domain,
                                            pair_subdomain = subdomain, pair_cname = cname,
                                            pair_cname_full = cname @ ''.'' @ cfg_domain cfg,
                                            pair_is_root = isRoot,
                                            pair_resource_name = resourceName,
                                            pair_target = targetIp, pair_port = targetPort,
                                            pair_protocol = targetProtocol\<rparr>])))))))"

text \<open>\<open>getPangolinDomainCnamePairs\<close> takes the outcome of the topology query. An error
  thrown in the loop is not caught here.\<close>

definition getPangolinDomainCnamePairs ::
  "config \<Rightarrow> js_error option + string \<Rightarrow> string option \<Rightarrow> resource option list
   \<Rightarrow> (string \<Rightarrow> target option list) \<Rightarrow> js_error + pair list \<times> host_mapping" where
  "getPangolinDomainCnamePairs cfg query orgId resources api_targets =
     (case getHostSubnetMapping query of
        Inl e \<Rightarrow> Inl e
      | Inr hostMapping \<Rightarrow>
          if hostMapping = [] then Inr ([], [])
          else (case orgId of
                  None \<Rightarrow> Inr ([], hostMapping)
                | Some org \<Rightarrow>
                    if org = [] then Inr ([], hostMapping)
                    else if resources = [] then Inr ([], hostMapping)
                    else (case build_pairs cfg api_targets hostMapping resources [] of
                            Inl e \<Rightarrow> Inl e
                          | Inr pairs \<Rightarrow> Inr (pairs, hostMapping))))"

section \<open>Logger\<close>

text \<open>The logger that \<open>server.js\<close> passes to \<open>DNSSync\<close>. \<open>Logger.log\<close> builds the entry,
  keeps it in the buffer, sends it to every WebSocket client inside a \<open>try\<close> whose
  \<open>catch\<close> drops the client, appends it to the log file inside a \<open>try\<close> whose \<open>catch\<close>
  is empty, and prints it. \<open>ws.send\<close> and \<open>fs.appendFileSync\<close> are
  the calls that can throw; their outcomes are fields of the logger here, with the
  clients. \<open>log\<close> returns the logger with the clients it kept; \<open>error\<close> is \<open>log\<close> at the
  level \<open>ERROR\<close>. The message has no effect on what \<open>log\<close> does and is left out. A call
  on the logger returns (lemma \<open>Logger_log_returns\<close> below), and the calls that the other
  functions make on it are left out of their models.\<close>

record logger =
  wsClients :: "nat list"
  ws_send :: "nat \<Rightarrow> js_error + unit"
  appendFileSync :: "js_error + unit"

fun broadcast :: "(nat \<Rightarrow> js_error + unit) \<Rightarrow> nat list \<Rightarrow> js_error + nat list" where
  "broadcast send [] = Inr []"
| "broadcast send (ws # rest) =
     (case send ws of
        Inl e \<Rightarrow> broadcast send rest
      | Inr _ \<Rightarrow> and_then (broadcast send rest) (\<lambda>kept. Inr (ws # kept)))"

definition Logger_log :: "logger \<Rightarrow> js_error + logger" where
  "Logger_log l =
     and_then (broadcast (ws_send l) (wsClients l)) (\<lambda>kept.
       case appendFileSync l of
         Inl e \<Rightarrow> Inr (l\<lparr>wsClients := kept\<rparr>)
       | Inr _ \<Rightarrow> Inr (l\<lparr>wsClients := kept\<rparr>))"

definition Logger_error :: "logger \<Rightarrow> js_error + logger" where
  "Logger_error l = Logger_log l"

section \<open>Orchestrator (DNSSync.generateGatusConfig, writeGatusConfig, runOnce)\<close>

text \<open>\<open>generateGatusConfig\<close> prepares the entries of the monitoring generator and calls
  \<open>generateConfig\<close>, which is a parameter here: a function of the entries (and of the
  host mapping, the configuration and the port-probe outcomes, which are fixed) that
  returns the endpoints or throws.\<close>

record gatus_entry =
  ent_name :: string
  ent_domain :: string
  ent_target :: string
  ent_port :: int
  ent_protocol :: string

record hetzner_entry =
  he_name :: string
  he_type :: string
  he_value :: string

fun hetzner_entries :: "config \<Rightarrow> string list \<Rightarrow> zone_record list \<Rightarrow> hetzner_entry list" where
  "hetzner_entries cfg pangolinSubdomains [] = []"
| "hetzner_entries cfg pangolinSubdomains (r # rest) =
     (if rec_type r \<noteq> ''A'' \<and> rec_type r \<noteq> ''CNAME''
      then hetzner_entries cfg pangolinSubdomains rest
      else if rec_name r \<in> set pangolinSubdomains
      then hetzner_entries cfg pangolinSubdomains rest
      else if startsWith (rec_name r) ''on.'' \<and> rec_name r \<notin> set (keepSubdomains cfg)
      then hetzner_entries cfg pangolinSubdomains rest
      else \<lparr>he_name = rec_name r, he_type = rec_type r,
             he_value = strip_trailing_dot (rec_value r)\<rparr>
           # hetzner_entries cfg pangolinSubdomains rest)"

definition generateGatusConfig ::
  "config \<Rightarrow> (gatus_entry list \<Rightarrow> hetzner_entry list \<Rightarrow> js_error + 'e list)
   \<Rightarrow> pair list \<Rightarrow> zone_record list \<Rightarrow> js_error + 'e list" where
  "generateGatusConfig cfg generateConfig pangolinPairs hetznerRecords =
     generateConfig
       (map (\<lambda>p. \<lparr>ent_name = pair_resource_name p, ent_domain = pair_domain p,
                   ent_target = pair_target p, ent_port = pair_port p,
                   ent_protocol = pair_protocol p\<rparr>) pangolinPairs)
       (hetzner_entries cfg (map pair_subdomain pangolinPairs) hetznerRecords)"

text \<open>What a cycle does to the outside: the calls on the zone client, each with the
  boolean it returned, and the writes of the monitoring file with their success.\<close>

datatype event = ZoneCall call bool | FileWrite string bool

fun event_ok :: "event \<Rightarrow> bool" where
  "event_ok (ZoneCall c ok) = ok"
| "event_ok (FileWrite content ok) = ok"

text \<open>\<open>writeGatusConfig\<close>: \<open>yaml.dump\<close> is outside the \<open>try\<close> blocks, so its error
  reaches the caller. The file is its content, \<open>None\<close> when it cannot be read. When the
  write to the temporary file or the rename throws (\<open>write_fails\<close>), the file stays as it
  is and the result is \<open>false\<close>.\<close>

definition writeGatusConfig ::
  "('e list \<Rightarrow> js_error + string) \<Rightarrow> bool \<Rightarrow> 'e list \<Rightarrow> string option
   \<Rightarrow> (js_error + bool) \<times> string option \<times> event list" where
  "writeGatusConfig yaml_dump write_fails endpoints file =
     (case yaml_dump endpoints of
        Inl e \<Rightarrow> (Inl e, file, [])
      | Inr newContent \<Rightarrow>
          if file = Some newContent then (Inr False, file, [])
          else if write_fails then (Inr False, file, [FileWrite newContent False])
          else (Inr True, Some newContent, [FileWrite newContent True]))"

record cycle_summary =
  pangolinMappings :: nat
  dnsRecords :: nat
  gatusEndpoints :: nat
  errors :: "string list"

record cycle_result =
  success :: bool
  summary :: cycle_summary

record world =
  w_zone :: zone
  w_file :: "string option"

text \<open>The external inputs of a cycle: the configuration, the answer to the topology
  query, the resource directory, the zone service, the generator with its serializer,
  whether the file system refuses the write, and the logger as it is when the \<open>catch\<close>
  block of \<open>runOnce\<close> is entered.\<close>

record 'e env =
  env_config :: config
  env_queryTXTOnce :: "nat \<Rightarrow> js_error + string"
  env_orgId :: "string option"
  env_resources :: "resource option list"
  env_targets :: "string \<Rightarrow> target option list"
  env_zones_by_name :: "js_error + string list"
  env_refuses :: "zone_request \<Rightarrow> bool"
  env_generateConfig :: "host_mapping \<Rightarrow> gatus_entry list \<Rightarrow> hetzner_entry list \<Rightarrow> js_error + 'e list"
  env_yaml_dump :: "'e list \<Rightarrow> js_error + string"
  env_write_fails :: bool
  env_logger :: logger

text \<open>The \<open>try\<close> block of \<open>runOnce\<close>: the builder (with the \<open>queryTXT\<close> that
  \<open>topology.js\<close> imports), the reconciler, the generator and the writer in sequence. It
  ends normally or with the error thrown by a step; in both cases \<open>summary\<close> holds the
  counts assigned so far, and the zone and the file are as the steps left them.\<close>

definition runOnce_try ::
  "'e env \<Rightarrow> world \<Rightarrow> (js_error + unit) \<times> cycle_summary \<times> world \<times> event list" where
  "runOnce_try env w =
     (let s0 = \<lparr>pangolinMappings = 0, dnsRecords = 0, gatusEndpoints = 0, errors = []\<rparr>
      in case getPangolinDomainCnamePairs (env_config env)
                (fst (queryTXT_no_retry (env_queryTXTOnce env)))
                (env_orgId env) (env_resources env) (env_targets env) of
           Inl e \<Rightarrow> (Inl e, s0, w, [])
         | Inr (pangolinPairs, hostMapping) \<Rightarrow>
             (let s1 = s0\<lparr>pangolinMappings := length pangolinPairs\<rparr>
              in case syncHetznerDns (env_refuses env) (env_config env) (env_zones_by_name env)
                        pangolinPairs (w_zone w) of
                   (hetznerRecords, z', calls) \<Rightarrow>
                     (let w1 = w\<lparr>w_zone := z'\<rparr>;
                          ev1 = map (\<lambda>(c, ok). ZoneCall c ok) calls;
                          s2 = s1\<lparr>dnsRecords := length hetznerRecords\<rparr>
                      in case generateGatusConfig (env_config env)
                                (env_generateConfig env hostMapping) pangolinPairs
                                hetznerRecords of
                           Inl e \<Rightarrow> (Inl e, s2, w1, ev1)
                         | Inr endpoints \<Rightarrow>
                             (let s3 = s2\<lparr>gatusEndpoints := length endpoints\<rparr>
                              in case writeGatusConfig (env_yaml_dump env) (env_write_fails env)
                                        endpoints (w_file w1) of
                                   (written, file', ev2) \<Rightarrow>
                                     (case written of
                                        Inl e \<Rightarrow> (Inl e, s3, w1\<lparr>w_file := file'\<rparr>, ev1 @ ev2)
                                      | Inr _ \<Rightarrow>
                                          (Inr (), s3, w1\<lparr>w_file := file'\<rparr>, ev1 @ ev2))))))"

text \<open>The \<open>catch\<close> block of \<open>runOnce\<close>: two calls of \<open>logger.error\<close>, then the message is
  pushed to \<open>summary.errors\<close> and the result is returned. An error thrown here would reach
  the caller of \<open>runOnce\<close>.\<close>

definition runOnce_catch :: "logger \<Rightarrow> js_error \<Rightarrow> cycle_summary \<Rightarrow> js_error + cycle_result" where
  "runOnce_catch l error s =
     and_then (Logger_error l) (\<lambda>l'.
     and_then (Logger_error l') (\<lambda>l''.
     Inr \<lparr>success = False, summary = s\<lparr>errors := errors s @ [message error]\<rparr>\<rparr>))"

text \<open>\<open>runOnce\<close>: \<open>Inr\<close> is the object returned, \<open>Inl\<close> an error that reaches the caller.\<close>

definition runOnce :: "'e env \<Rightarrow> world \<Rightarrow> (js_error + cycle_result) \<times> world \<times> event list" where
  "runOnce env w =
     (case runOnce_try env w of
        (outcome, s, w', events) \<Rightarrow>
          ((case outcome of
              Inr _ \<Rightarrow> Inr \<lparr>success = True, summary = s\<rparr>
            | Inl error \<Rightarrow> runOnce_catch (env_logger env) error s),
           w', events))"

section \<open>Notions used in the proofs\<close>

text \<open>The managed values of the CNAME record sets of a name, in listing order, on the zone
  and on the flat listing.\<close>

definition managed_values :: "zone \<Rightarrow> string \<Rightarrow> string list" where
  "managed_values z n =
     concat (map (\<lambda>rs. if rr_type rs = ''CNAME'' \<and> rr_name rs = n
                         then filter references_topology (map strip_trailing_dot (rr_values rs))
                         else []) z)"

definition record_values :: "zone_record list \<Rightarrow> string \<Rightarrow> string list" where
  "record_values rs n =
     map (\<lambda>r. strip_trailing_dot (rec_value r))
       (filter (\<lambda>r. rec_type r = ''CNAME'' \<and> rec_name r = n
                    \<and> references_topology (strip_trailing_dot (rec_value r))) rs)"

text \<open>Concrete inputs for the examples.\<close>

definition example_config :: config where
  "example_config =
     \<lparr>cfg_domain = ''example.com'', ignoreSubdomains = [], keepSubdomains = [''d''],
      hetznerZoneId = ''z1'', pangolinOrgId = []\<rparr>"

definition example_pair :: "string \<Rightarrow> string \<Rightarrow> pair" where
  "example_pair subdomain cname =
     \<lparr>pair_name = subdomain, pair_domain = subdomain @ ''.example.com'',
      pair_subdomain = subdomain, pair_cname = cname, pair_cname_full = cname,
      pair_is_root = False, pair_resource_name = subdomain, pair_target = ''10.0.4.17'',
      pair_port = 443, pair_protocol = ''https''\<rparr>"

definition cname_rrset :: "string \<Rightarrow> string \<Rightarrow> rrset" where
  "cname_rrset n v = \<lparr>rr_name = n, rr_type = ''CNAME'', rr_ttl = 3600, rr_values = [v]\<rparr>"

text \<open>A logger with two clients, the second of them closed, and a log file that cannot
  be appended to.\<close>

definition example_logger :: logger where
  "example_logger =
     \<lparr>wsClients = [1, 2],
      ws_send = (\<lambda>ws. if ws = 2 then Inl (JsError ''WebSocket is not open'') else Inr ()),
      appendFileSync = Inl (JsError ''ENOSPC: no space left on device'')\<rparr>"

definition example_env :: "string env" where
  "example_env =
     \<lparr>env_config = example_config,
      env_queryTXTOnce = (\<lambda>n. Inr ''alpha:10.0.4.5''),
      env_orgId = Some ''org1'',
      env_resources =
        [Some \<lparr>res_resourceId = ''1'', res_name = ''App'', res_fullDomain = ''app.example.com'',
               res_domain = [], res_subdomain = [], res_protocol = ''https'',
               res_targets = []\<rparr>],
      env_targets = (\<lambda>resourceId.
        [Some \<lparr>tgt_ip = ''10.0.4.17'', tgt_port = 443, tgt_method = [],
               tgt_enabled = Some True\<rparr>]),
      env_zones_by_name = Inr [],
      env_refuses = (\<lambda>req. False),
      env_generateConfig = (\<lambda>hostMapping entries records.
        Inr (map ent_name entries @ map he_name records)),
      env_yaml_dump = (\<lambda>endpoints. Inr (concat endpoints)),
      env_write_fails = False,
      env_logger = example_logger\<rparr>"

text \<open>The same inputs with a zone service that serves the listing and refuses every
  change (a token without write access).\<close>

definition read_only_env :: "string env" where
  "read_only_env =
     example_env\<lparr>env_refuses := (\<lambda>req. case req of GetRRSets page \<Rightarrow> False | _ \<Rightarrow> True)\<rparr>"

text \<open>The same inputs with a resource list \<open>[null]\<close>.\<close>

definition null_resource_env :: "string env" where
  "null_resource_env = example_env\<lparr>env_resources := [None]\<rparr>"

definition empty_world :: world where
  "empty_world = \<lparr>w_zone = [], w_file = None\<rparr>"

definition example_world :: world where
  "example_world =
     \<lparr>w_zone =
        [cname_rrset ''old'' ''on.beta.example.com.'', cname_rrset ''d'' ''on.beta.example.com.'',
         \<lparr>rr_name = ''www'', rr_type = ''A'', rr_ttl = 300, rr_values = [''192.0.2.7'']\<rparr>],
      w_file = None\<rparr>"

section \<open>Properties\<close>

subsection \<open>Subnet containment\<close>

lemma ipInSubnet_contained: "ipInSubnet ''10.0.4.17'' ''10.0.4.0/24''"
  by code_simp

lemma ipInSubnet_not_contained: "\<not> ipInSubnet ''10.0.5.1'' ''10.0.4.0/24''"
  by code_simp

lemma ipToNumber_loop_rejects:
  "\<exists>p \<in> set parts. \<not> octet_ok p \<Longrightarrow> ipToNumber_loop num parts = None"
  by (induction parts arbitrary: num) (auto simp: octet_ok_def split: js_number.splits)

lemma ipInSubnet_rejects_count_and_range:
  "length (split CHR ''.'' ip) \<noteq> 4 \<or> (\<exists>p \<in> set (split CHR ''.'' ip). \<not> octet_ok p)
   \<Longrightarrow> \<not> ipInSubnet ip subnet"
  by (auto simp: ipInSubnet_def ipToNumber_def Let_def ipToNumber_loop_rejects
      split: option.splits)

lemma parseInt_rounds_to_double:
  "parseInt ''9007199254740993'' = Finite 9007199254740992
   \<and> parseInt ''17abc'' = Finite 17 \<and> parseInt ''abc'' = NaN"
  by code_simp

lemma parseInt_overflows_to_infinity:
  "parseInt (CHR ''1'' # replicate 309 CHR ''0'') = PosInfinity"
  by code_simp

lemma ipInSubnet_rounded_prefix: "\<not> ipInSubnet ''10.0.4.17'' ''10.0.4.0/9007199254740993''"
  by code_simp

text \<open>
  C7. \<open>ipInSubnet\<close> is to return false for every string that is not a valid dotted quad.
  The octets are read by \<open>parseInt\<close>, which stops at the first character that is not a
  digit: \<open>10.0.4.17abc\<close> is read as \<open>10.0.4.17\<close> and reported as contained in
  \<open>10.0.4.0/24\<close>.
\<close>

theorem ipInSubnet_accepts_trailing_garbage:
  "ipInSubnet ''10.0.4.17abc'' ''10.0.4.0/24''"
  by code_simp

subsection \<open>Protocol and port detection\<close>

lemma scan_ports_probes:
  "snd (scan_ports checkPort target ps probes) =
     probes @ map (Pair target)
       (takeWhile (\<lambda>p. \<not> checkPort target p) ps @ take 1 (dropWhile (\<lambda>p. \<not> checkPort target p) ps))"
  by (induction ps arbitrary: probes) auto

lemma scan_ports_result:
  "fst (scan_ports checkPort target ps probes) =
     (case find (checkPort target) ps of
        Some p \<Rightarrow> \<lparr>det_protocol = protocol_for (Number p), det_port = Number p\<rparr>
      | None \<Rightarrow> \<lparr>det_protocol = ''icmp'', det_port = Number 0\<rparr>)"
  by (induction ps arbitrary: probes) auto

lemma detect_without_override:
  assumes "portOverrides subdomain = None" and "subdomain \<notin> set Object_prototype_names"
  shows "fst (detectProtocolAndPort portOverrides checkPort target subdomain) =
           (case find (checkPort target) CHECK_ORDER of
              Some p \<Rightarrow> \<lparr>det_protocol = protocol_for (Number p), det_port = Number p\<rparr>
            | None \<Rightarrow> \<lparr>det_protocol = ''icmp'', det_port = Number 0\<rparr>)"
  using assms by (simp add: detectProtocolAndPort_def object_get_def scan_ports_result)

text \<open>
  C5. With no override configured, detection is to probe the ports of \<open>CHECK_ORDER\<close>. For
  the subdomain \<open>constructor\<close> and an empty override table the property read finds the
  inherited \<open>Object.prototype.constructor\<close>: detection returns protocol \<open>tcp\<close> with that
  member as the port and probes nothing, although every port accepts a connection.
\<close>

theorem detect_inherited_property_skips_probe:
  "detectProtocolAndPort Map.empty (\<lambda>host port. True) ''constructor.example.com'' ''constructor''
     = (\<lparr>det_protocol = ''tcp'', det_port = Inherited ''constructor''\<rparr>, [])"
  by (simp add: detectProtocolAndPort_def object_get_def Object_prototype_names_def)

text \<open>
  C6. For a subdomain (a non-empty name: the empty string is the parameter's default and
  stands for no subdomain) with a configured port override \<open>p\<close>, detection returns port
  \<open>p\<close> with the protocol of the port table, \<open>tcp\<close> for a port the table does not list,
  and makes no probe, whatever the probes would answer.
\<close>

theorem detect_override_no_probe:
  assumes "subdomain \<noteq> []" and "portOverrides subdomain = Some p"
  shows "detectProtocolAndPort portOverrides checkPort target subdomain =
           (\<lparr>det_protocol = (case map_of PORT_PROTOCOLS p of Some s \<Rightarrow> s | None \<Rightarrow> ''tcp''),
             det_port = Number p\<rparr>, [])"
  using assms by (simp add: detectProtocolAndPort_def object_get_def)

theorem detect_override_no_probe_witness:
  "detectProtocolAndPort [''app'' \<mapsto> 80] (\<lambda>host port. True) ''10.0.4.17'' ''app'' =
     (\<lparr>det_protocol = ''http'', det_port = Number 80\<rparr>, [])"
  using detect_override_no_probe [of "''app''" "[''app'' \<mapsto> 80]" 80 "\<lambda>host port. True" "''10.0.4.17''"]
  by (simp add: PORT_PROTOCOLS_def)

subsection \<open>Response shapes of the resource directory\<close>

lemma extraction_is_policy:
  "(let direct = (case optional_get (Some (JObject members)) key of
                    Some found \<Rightarrow> if truthy found then found else JArray []
                  | None \<Rightarrow> JArray []);
        simple = (case map_of (rev members) ''data'' of
                    Some (JArray xs) \<Rightarrow> JArray xs
                  | _ \<Rightarrow> direct)
    in case optional_get (map_of (rev members) ''data'') key of
         Some nested \<Rightarrow> if truthy nested then nested else simple
       | None \<Rightarrow> simple) = shape_policy key (JObject members)"
proof (cases "map_of (rev members) ''data''")
  case None
  then show ?thesis
    by (simp add: shape_policy_def present_def split: option.splits)
next
  case (Some d)
  then show ?thesis
    by (cases d) (simp_all add: shape_policy_def present_def split: option.splits)
qed

lemma select_list_policy:
  "select_list key v =
     (if v = JNull then Inl (JsError ''Cannot read properties of null'')
      else Inr (shape_policy key v))"
proof (cases v)
  case (JObject members)
  with extraction_is_policy [of members key] show ?thesis
    by (simp add: select_list_def and_then_def)
qed (simp_all add: select_list_def and_then_def shape_policy_def)

lemma getResourceTargets_policy: "getResourceTargets (Inr v) = shape_policy ''targets'' v"
  by (simp add: getResourceTargets_def getResourceTargets_try_def and_then_def
      select_list_policy shape_policy_def)

lemma listResources_policy:
  "listResources (Inr v) =
     (if length_logged (shape_policy ''resources'' v) then shape_policy ''resources'' v
      else JArray [])"
proof (cases "v = JNull")
  case True
  then show ?thesis
    by (simp add: listResources_def listResources_try_def and_then_def select_list_policy
        shape_policy_def)
next
  case False
  let ?sel = "shape_policy ''resources'' v"
  show ?thesis
  proof (cases "get_property ?sel ''length''")
    case (Inl e)
    with False show ?thesis
      by (simp add: listResources_def listResources_try_def and_then_def select_list_policy
          length_logged_def)
  next
    case (Inr len)
    with False show ?thesis
      by (cases "template [len]")
        (simp_all add: listResources_def listResources_try_def and_then_def
          select_list_policy length_logged_def)
  qed
qed

lemma listOrgs_policy:
  "listOrgs (Inr v) =
     (if loggable (shape_policy ''orgs'' v) then shape_policy ''orgs'' v else JArray [])"
proof (cases "v = JNull")
  case True
  then show ?thesis
    by (simp add: listOrgs_def listOrgs_try_def and_then_def select_list_policy
        shape_policy_def)
next
  case False
  let ?sel = "shape_policy ''orgs'' v"
  show ?thesis
  proof (cases "get_property ?sel ''length''")
    case (Inl e)
    with False show ?thesis
      by (simp add: listOrgs_def listOrgs_try_def and_then_def select_list_policy
          loggable_def length_logged_def)
  next
    case (Inr len)
    show ?thesis
    proof (cases "template [len]")
      case (Inl e)
      with Inr False show ?thesis
        by (simp add: listOrgs_def listOrgs_try_def and_then_def select_list_policy
            loggable_def length_logged_def)
    next
      case logged: (Inr u)
      with Inr False show ?thesis
        by (cases "for_of_orgs ?sel")
          (simp_all add: listOrgs_def listOrgs_try_def and_then_def select_list_policy
            loggable_def length_logged_def)
    qed
  qed
qed

lemma listResources_unconvertible_length:
  "listResources (Inr (JObject [(''resources'', JObject [(''length'', JObject [(''toString'', JNumber 1)])])]))
     = JArray []"
  by code_simp

lemma listOrgs_unconvertible_orgId:
  "listOrgs (Inr (JArray [JObject [(''orgId'', JObject [(''toString'', JNumber 1)])]])) = JArray []"
  by code_simp

text \<open>
  C8. Every list operation is to return what the shape policy selects, for every JSON
  response. On the response \<open>[null]\<close> the policy selects the array itself, and
  \<open>listResources\<close> and \<open>getResourceTargets\<close> return it; \<open>listOrgs\<close> returns the empty list,
  because the loop that logs the organizations reads \<open>org.orgId\<close> on the \<open>null\<close> element
  inside the \<open>try\<close> block and the TypeError is caught by the method's own \<open>catch\<close>.
\<close>

theorem listOrgs_null_element_returns_empty:
  "shape_policy ''orgs'' (JArray [JNull]) = JArray [JNull]
   \<and> listOrgs (Inr (JArray [JNull])) = JArray []
   \<and> listResources (Inr (JArray [JNull])) = JArray [JNull]
   \<and> getResourceTargets (Inr (JArray [JNull])) = JArray [JNull]"
  by code_simp

subsection \<open>Topology query\<close>

lemma queryTXT_cases:
  "queryTXT q =
     (case q 1 of
        Inr txt \<Rightarrow> (Inr txt, [Attempt 10000])
      | Inl e1 \<Rightarrow>
          (case q 2 of
             Inr txt \<Rightarrow> (Inr txt, [Attempt 10000, Sleep 2000, Attempt 10000])
           | Inl e2 \<Rightarrow>
               (case q 3 of
                  Inr txt \<Rightarrow>
                    (Inr txt, [Attempt 10000, Sleep 2000, Attempt 10000, Sleep 2000, Attempt 10000])
                | Inl e3 \<Rightarrow>
                    (Inl (Some e3),
                     [Attempt 10000, Sleep 2000, Attempt 10000, Sleep 2000, Attempt 10000]))))"
  by (simp add: queryTXT_def MAX_RETRIES_def TIMEOUT_MS_def RETRY_DELAY_MS_def
      numeral_2_eq_2 numeral_3_eq_3 split: sum.splits)



lemma queryTXT_versions_on_one_failure:
  "queryTXT (\<lambda>n. if n = 1 then Inl (JsError ''DNS query timeout'') else Inr ''alpha:10.0.4.5'')
     = (Inr ''alpha:10.0.4.5'', [Attempt 10000, Sleep 2000, Attempt 10000])
   \<and> queryTXT_no_retry
        (\<lambda>n. if n = 1 then Inl (JsError ''DNS query timeout'') else Inr ''alpha:10.0.4.5'')
     = (Inl (Some (JsError ''DNS query timeout'')), [Attempt 5000])"
  by (simp add: queryTXT_cases queryTXT_no_retry_def)

lemma getHostSubnetMapping_example:
  "getHostSubnetMapping (Inr ''alpha:10.0.4.5, beta : 10.0.5.9,gamma:10.0.6'') =
     Inr [(''on.alpha'', ''10.0.4.0/24''), (''on.beta'', ''10.0.5.0/24'')]"
  by code_simp



subsection \<open>Zone reconciliation\<close>

lemma map_fst_object_update:
  "map fst (map (\<lambda>(k', v'). if k' = k then (k', v) else (k', v')) obj) = map fst obj"
  by (induction obj) auto

lemma fst_set_object_set: "fst ` set (object_set k v obj) = insert k (fst ` set obj)"
proof (cases "k \<in> fst ` set obj")
  case True
  have "fst ` set (map (\<lambda>(k', v'). if k' = k then (k', v) else (k', v')) obj)
          = set (map fst (map (\<lambda>(k', v'). if k' = k then (k', v) else (k', v')) obj))"
    by (simp only: set_map)
  also have "\<dots> = fst ` set obj"
    by (simp only: map_fst_object_update set_map)
  finally show ?thesis using True by (auto simp: object_set_def)
next
  case False
  then show ?thesis by (simp add: object_set_def)
qed

lemma set_object_set: "set (object_set k v obj) \<subseteq> insert (k, v) (set obj)"
  by (auto simp: object_set_def split: if_splits)

lemma object_set_keeps_other:
  "(k', v') \<in> set obj \<Longrightarrow> k' \<noteq> k \<Longrightarrow> (k', v') \<in> set (object_set k v obj)"
  by (auto simp: object_set_def intro!: rev_image_eqI)

lemma currentCnames_entry_origin:
  "(n, v, i) \<in> set (collect_currentCnames rs m) \<Longrightarrow>
   (n, v, i) \<in> set m \<or>
   (\<exists>r \<in> set rs. rec_name r = n \<and> rec_type r = ''CNAME'' \<and> v = strip_trailing_dot (rec_value r)
      \<and> references_topology v \<and> i = rec_id r)"
proof (induction rs arbitrary: m)
  case Nil
  then show ?case by simp
next
  case (Cons r rest)
  show ?case
  proof (cases "rec_type r = ''CNAME'' \<and> references_topology (strip_trailing_dot (rec_value r))")
    case True
    with Cons.prems have "(n, v, i) \<in> set (collect_currentCnames rest
        (object_set (rec_name r) (strip_trailing_dot (rec_value r), rec_id r) m))"
      by simp
    from Cons.IH [OF this] show ?thesis
    proof
      assume "(n, v, i) \<in> set (object_set (rec_name r) (strip_trailing_dot (rec_value r), rec_id r) m)"
      with set_object_set [of "rec_name r" "(strip_trailing_dot (rec_value r), rec_id r)" m]
      have "(n, v, i) = (rec_name r, strip_trailing_dot (rec_value r), rec_id r) \<or> (n, v, i) \<in> set m"
        by auto
      with True show ?thesis by auto
    next
      assume "\<exists>r\<in>set rest. rec_name r = n \<and> rec_type r = ''CNAME'' \<and>
         v = strip_trailing_dot (rec_value r) \<and> references_topology v \<and> i = rec_id r"
      then show ?thesis by auto
    qed
  next
    case False
    with Cons.prems have "(n, v, i) \<in> set (collect_currentCnames rest m)"
      by (auto split: if_splits)
    from Cons.IH [OF this] show ?thesis by auto
  qed
qed

lemma currentCnames_keys:
  "fst ` set (collect_currentCnames rs m) =
     fst ` set m \<union> {rec_name r | r. r \<in> set rs \<and> rec_type r = ''CNAME''
                       \<and> references_topology (strip_trailing_dot (rec_value r))}"
  by (induction rs arbitrary: m) (auto simp: fst_set_object_set)

lemma delete_orphans_calls:
  "(c, ok) \<in> set (snd (delete_orphans refuses cfg zoneId expected entries (z, calls))) \<Longrightarrow>
   (c, ok) \<in> set calls \<or>
   (\<exists>n v i. (n, v, i) \<in> set entries \<and> n \<notin> fst ` set expected \<and> n \<notin> set (keepSubdomains cfg)
      \<and> c = DeleteRecord i zoneId)"
proof (induction entries arbitrary: z calls)
  case Nil
  then show ?case by simp
next
  case (Cons e rest)
  obtain n v i where e: "e = (n, v, i)" by (cases e) auto
  show ?case
  proof (cases "n \<notin> fst ` set expected \<and> n \<notin> set (keepSubdomains cfg)")
    case True
    obtain z' ok' where d: "deleteRecord refuses z i zoneId = (z', ok')"
      by (cases "deleteRecord refuses z i zoneId") auto
    with Cons.prems e True
    have "(c, ok) \<in> set (snd (delete_orphans refuses cfg zoneId expected rest
              (z', calls @ [(DeleteRecord i zoneId, ok')])))"
      by simp
    from Cons.IH [OF this] e True show ?thesis by auto
  next
    case False
    with Cons.prems e
    have "(c, ok) \<in> set (snd (delete_orphans refuses cfg zoneId expected rest (z, calls)))"
      by (auto split: if_splits)
    from Cons.IH [OF this] show ?thesis by auto
  qed
qed

lemma delete_orphans_keeps_calls:
  "set calls \<subseteq> set (snd (delete_orphans refuses cfg zoneId expected entries (z, calls)))"
proof (induction entries arbitrary: z calls)
  case Nil
  show ?case by simp
next
  case (Cons e rest)
  obtain n v i where e: "e = (n, v, i)" by (cases e) auto
  obtain z' ok' where d: "deleteRecord refuses z i zoneId = (z', ok')"
    by (cases "deleteRecord refuses z i zoneId") auto
  from Cons.IH [where z = z and calls = calls]
    Cons.IH [where z = z' and calls = "calls @ [(DeleteRecord i zoneId, ok')]"] e d
  show ?case by auto
qed

lemma delete_orphans_issues:
  "(n, v, i) \<in> set entries \<Longrightarrow> n \<notin> fst ` set expected \<Longrightarrow> n \<notin> set (keepSubdomains cfg) \<Longrightarrow>
   \<exists>ok. (DeleteRecord i zoneId, ok)
          \<in> set (snd (delete_orphans refuses cfg zoneId expected entries (z, calls)))"
proof (induction entries arbitrary: z calls)
  case Nil
  then show ?case by simp
next
  case (Cons e rest)
  obtain n' v' i' where e: "e = (n', v', i')" by (cases e) auto
  obtain z' ok' where d: "deleteRecord refuses z i' zoneId = (z', ok')"
    by (cases "deleteRecord refuses z i' zoneId") auto
  show ?case
  proof (cases "(n, v, i) = e")
    case True
    with e have same: "n' = n" "i' = i" by auto
    from delete_orphans_keeps_calls
      [where calls = "calls @ [(DeleteRecord i zoneId, ok')]" and refuses = refuses and cfg = cfg
        and zoneId = zoneId and expected = expected and entries = rest and z = z']
    have "(DeleteRecord i zoneId, ok')
            \<in> set (snd (delete_orphans refuses cfg zoneId expected rest
                      (z', calls @ [(DeleteRecord i zoneId, ok')])))"
      by auto
    with e d same Cons.prems show ?thesis by auto
  next
    case False
    with Cons.prems have "(n, v, i) \<in> set rest" by auto
    from Cons.IH [OF this Cons.prems(2,3)] e d show ?thesis
      by (auto split: if_splits)
  qed
qed

lemma upsert_expected_calls:
  "(c, ok) \<in> set (snd (upsert_expected refuses zoneId current expected (z, calls))) \<Longrightarrow>
   (c, ok) \<in> set calls \<or> (\<forall>i zid. c \<noteq> DeleteRecord i zid)"
proof (induction expected arbitrary: z calls)
  case Nil
  then show ?case by simp
next
  case (Cons e rest)
  obtain n target where e: "e = (n, target)" by (cases e) auto
  obtain zu oku where u: "updateRecord refuses z (snd (the (map_of current n))) zoneId n ''CNAME'' target 3600 = (zu, oku)"
    by (cases "updateRecord refuses z (snd (the (map_of current n))) zoneId n ''CNAME'' target 3600") auto
  obtain zc okc where c: "createRecord refuses z zoneId n ''CNAME'' target 3600 = (zc, okc)"
    by (cases "createRecord refuses z zoneId n ''CNAME'' target 3600") auto
  from Cons.prems e u c
  consider
      (upd) i where "(c, ok) \<in> set (snd (upsert_expected refuses zoneId current rest
            (zu, calls @ [(UpdateRecord i zoneId n ''CNAME'' target 3600, oku)])))"
    | (same) "(c, ok) \<in> set (snd (upsert_expected refuses zoneId current rest (z, calls)))"
    | (cre) "(c, ok) \<in> set (snd (upsert_expected refuses zoneId current rest
            (zc, calls @ [(CreateRecord zoneId n ''CNAME'' target 3600, okc)])))"
    by (auto split: option.splits if_splits)
  then show ?case
  proof cases
    case upd
    from Cons.IH [OF this] show ?thesis by auto
  next
    case same
    from Cons.IH [OF this] show ?thesis by auto
  next
    case cre
    from Cons.IH [OF this] show ?thesis by auto
  qed
qed

lemma upsert_expected_keeps_calls:
  "set calls \<subseteq> set (snd (upsert_expected refuses zoneId current expected (z, calls)))"
proof (induction expected arbitrary: z calls)
  case Nil
  show ?case by simp
next
  case (Cons e rest)
  obtain n target where e: "e = (n, target)" by (cases e) auto
  show ?case
  proof (cases "map_of current n")
    case None
    obtain zc okc where c: "createRecord refuses z zoneId n ''CNAME'' target 3600 = (zc, okc)"
      by (cases "createRecord refuses z zoneId n ''CNAME'' target 3600") auto
    from Cons.IH [where calls = "calls @ [(CreateRecord zoneId n ''CNAME'' target 3600, okc)]"
        and z = zc] None e c
    show ?thesis by auto
  next
    case (Some a)
    obtain v i where a: "a = (v, i)" by (cases a) auto
    obtain zu oku where u: "updateRecord refuses z i zoneId n ''CNAME'' target 3600 = (zu, oku)"
      by (cases "updateRecord refuses z i zoneId n ''CNAME'' target 3600") auto
    from Cons.IH [where calls = "calls @ [(UpdateRecord i zoneId n ''CNAME'' target 3600, oku)]"
        and z = zu]
      Cons.IH [where calls = calls and z = z] Some a e u
    show ?thesis by auto
  qed
qed

lemma listRecords_from_ids:
  "listRecords_from refuses z zoneId page acc = Inr rs \<Longrightarrow>
   \<forall>r \<in> set acc. rec_id r = rec_name r @ '':'' @ rec_type r \<Longrightarrow>
   \<forall>r \<in> set rs. rec_id r = rec_name r @ '':'' @ rec_type r"
proof (induction refuses z zoneId page acc rule: listRecords_from.induct)
  case (1 refuses z zoneId page allRecords)
  let ?acc = "allRecords @ concat (map (flatten_rrset zoneId) (rrsets_page z page))"
  have acc: "\<forall>r \<in> set ?acc. rec_id r = rec_name r @ '':'' @ rec_type r"
    using "1.prems"(2) by (auto simp: flatten_rrset_def)
  show ?case
  proof (cases "zone_request_result refuses (GetRRSets page) z")
    case None
    with "1.prems"(1) show ?thesis
      by (subst (asm) listRecords_from.simps) simp
  next
    case (Some a)
    show ?thesis
    proof (cases "page \<ge> (if last_page z = 0 then 1 else last_page z)")
      case True
      with Some "1.prems"(1) have "rs = ?acc"
        by (subst (asm) listRecords_from.simps) (simp add: Let_def)
      with acc show ?thesis by simp
    next
      case False
      with Some "1.prems"(1) have "listRecords_from refuses z zoneId (page + 1) ?acc = Inr rs"
        by (subst (asm) listRecords_from.simps) (simp add: Let_def)
      from "1.IH" [OF Some refl False this acc] show ?thesis .
    qed
  qed
qed

lemma listRecords_ids:
  "r \<in> set (listRecords refuses z zoneId) \<Longrightarrow> rec_id r = rec_name r @ '':'' @ rec_type r"
proof -
  assume r: "r \<in> set (listRecords refuses z zoneId)"
  show ?thesis
  proof (cases "listRecords_from refuses z zoneId 1 []")
    case (Inl e)
    with r show ?thesis by (simp add: listRecords_def)
  next
    case (Inr rs)
    from listRecords_from_ids [OF Inr] have "\<forall>r \<in> set rs. rec_id r = rec_name r @ '':'' @ rec_type r"
      by simp
    with r Inr show ?thesis by (simp add: listRecords_def)
  qed
qed

lemma listRecords_from_all:
  "\<forall>p. \<not> refuses (GetRRSets p) \<Longrightarrow> 1 \<le> page \<Longrightarrow>
   listRecords_from refuses z zoneId page acc =
     Inr (acc @ concat (map (flatten_rrset zoneId) (drop (100 * (page - 1)) z)))"
proof (induction refuses z zoneId page acc rule: listRecords_from.induct)
  case (1 refuses z zoneId page allRecords)
  let ?acc = "allRecords @ concat (map (flatten_rrset zoneId) (rrsets_page z page))"
  have req: "zone_request_result refuses (GetRRSets page) z = Some z"
    using "1.prems"(1) by (simp add: zone_request_result_def)
  have split_page: "drop (100 * (page - 1)) z
      = rrsets_page z page @ drop (100 * page) z"
  proof -
    have "drop 100 (drop (100 * (page - 1)) z) = drop (100 * page) z"
      using "1.prems"(2) by (simp add: algebra_simps)
    then show ?thesis
      by (metis append_take_drop_id rrsets_page_def)
  qed
  show ?case
  proof (cases "page \<ge> (if last_page z = 0 then 1 else last_page z)")
    case True
    then have "length z \<le> 100 * page"
      by (auto simp: last_page_def split: if_splits)
    then have "drop (100 * page) z = []" by simp
    with split_page have "rrsets_page z page = drop (100 * (page - 1)) z" by simp
    with True req show ?thesis
      by (subst listRecords_from.simps) (simp add: Let_def)
  next
    case False
    from "1.IH" [OF req refl False "1.prems"(1)]
    have "listRecords_from refuses z zoneId (page + 1) ?acc
            = Inr (?acc @ concat (map (flatten_rrset zoneId) (drop (100 * page) z)))"
      by simp
    with False req split_page show ?thesis
      by (subst listRecords_from.simps) (simp add: Let_def)
  qed
qed

lemma listRecords_all:
  "\<forall>p. \<not> refuses (GetRRSets p) \<Longrightarrow>
   listRecords refuses z zoneId = concat (map (flatten_rrset zoneId) z)"
  by (simp add: listRecords_def listRecords_from_all)


lemma sync_delete_origin:
  assumes "(DeleteRecord recordId zid, ok) \<in> set (snd (snd (syncHetznerDns refuses cfg zones pairs z)))"
  shows "\<exists>r \<in> set (listRecords refuses z zid).
           rec_id r = recordId \<and> rec_type r = ''CNAME''
           \<and> references_topology (strip_trailing_dot (rec_value r))
           \<and> rec_name r \<notin> fst ` set (collect_expectedCnames cfg pairs [])
           \<and> rec_name r \<notin> set (keepSubdomains cfg)"
proof (cases "getZoneId cfg zones")
  case None
  with assms show ?thesis by (simp add: syncHetznerDns_def)
next
  case (Some zoneId)
  show ?thesis
  proof (cases "zoneId = []")
    case True
    with Some assms show ?thesis by (simp add: syncHetznerDns_def)
  next
    case False
    let ?cur = "collect_currentCnames (listRecords refuses z zoneId) []"
    let ?exp = "collect_expectedCnames cfg pairs []"
    obtain z1 calls1 where d: "delete_orphans refuses cfg zoneId ?exp ?cur (z, []) = (z1, calls1)"
      by (cases "delete_orphans refuses cfg zoneId ?exp ?cur (z, [])") auto
    obtain z2 calls2 where u: "upsert_expected refuses zoneId ?cur ?exp (z1, calls1) = (z2, calls2)"
      by (cases "upsert_expected refuses zoneId ?cur ?exp (z1, calls1)") auto
    from assms Some False d u have "(DeleteRecord recordId zid, ok) \<in> set calls2"
      by (simp add: syncHetznerDns_def Let_def)
    with u upsert_expected_calls [of "DeleteRecord recordId zid" ok refuses zoneId ?cur ?exp z1 calls1]
    have "(DeleteRecord recordId zid, ok) \<in> set calls1" by auto
    with d delete_orphans_calls [of "DeleteRecord recordId zid" ok refuses cfg zoneId ?exp ?cur z "[]"]
    obtain n v where entry: "(n, v, recordId) \<in> set ?cur" "n \<notin> fst ` set ?exp"
        "n \<notin> set (keepSubdomains cfg)" "zid = zoneId"
      by auto
    from currentCnames_entry_origin [OF entry(1)] entry show ?thesis by auto
  qed
qed

lemma record_id_inj:
  "rec_id r = rec_name r @ '':'' @ rec_type r \<Longrightarrow> rec_id r' = rec_name r' @ '':'' @ rec_type r' \<Longrightarrow>
   rec_type r = rec_type r' \<Longrightarrow> rec_id r = rec_id r' \<Longrightarrow> rec_name r = rec_name r'"
  by simp

text \<open>
  C4. Every delete call of the reconciler carries the id of a record of the listing that
  is a CNAME, whose value without the trailing dot starts with \<open>on.\<close> or contains
  \<open>.on.\<close>, and whose name is neither a key of the expected map nor in the retention list
  \<open>keepSubdomains\<close>. In particular no delete call is made for a CNAME record whose name
  is in the retention list.
\<close>

theorem delete_only_unretained_orphans:
  "(\<forall>recordId zid ok.
      (DeleteRecord recordId zid, ok) \<in> set (snd (snd (syncHetznerDns refuses cfg zones pairs z))) \<longrightarrow>
      (\<exists>r \<in> set (listRecords refuses z zid).
         rec_id r = recordId \<and> rec_type r = ''CNAME''
         \<and> references_topology (strip_trailing_dot (rec_value r))
         \<and> rec_name r \<notin> fst ` set (collect_expectedCnames cfg pairs [])
         \<and> rec_name r \<notin> set (keepSubdomains cfg)))
   \<and> (\<forall>zid r ok.
        r \<in> set (listRecords refuses z zid) \<and> rec_type r = ''CNAME''
        \<and> rec_name r \<in> set (keepSubdomains cfg) \<longrightarrow>
        (DeleteRecord (rec_id r) zid, ok) \<notin> set (snd (snd (syncHetznerDns refuses cfg zones pairs z))))"
proof (intro conjI allI impI)
  fix recordId zid ok
  assume "(DeleteRecord recordId zid, ok) \<in> set (snd (snd (syncHetznerDns refuses cfg zones pairs z)))"
  then show "\<exists>r \<in> set (listRecords refuses z zid).
         rec_id r = recordId \<and> rec_type r = ''CNAME''
         \<and> references_topology (strip_trailing_dot (rec_value r))
         \<and> rec_name r \<notin> fst ` set (collect_expectedCnames cfg pairs [])
         \<and> rec_name r \<notin> set (keepSubdomains cfg)"
    by (rule sync_delete_origin)
next
  fix zid r ok
  assume r: "r \<in> set (listRecords refuses z zid) \<and> rec_type r = ''CNAME''
        \<and> rec_name r \<in> set (keepSubdomains cfg)"
  show "(DeleteRecord (rec_id r) zid, ok) \<notin> set (snd (snd (syncHetznerDns refuses cfg zones pairs z)))"
  proof
    assume "(DeleteRecord (rec_id r) zid, ok) \<in> set (snd (snd (syncHetznerDns refuses cfg zones pairs z)))"
    from sync_delete_origin [OF this] obtain r' where r':
      "r' \<in> set (listRecords refuses z zid)" "rec_id r' = rec_id r" "rec_type r' = ''CNAME''"
      "rec_name r' \<notin> set (keepSubdomains cfg)"
      by auto
    from r r' listRecords_ids [of r refuses z zid] listRecords_ids [of r' refuses z zid]
    have "rec_name r' = rec_name r" by simp
    with r r' show False by simp
  qed
qed

text \<open>
  C10. Whether a record is managed is decided from the record alone: the reconciler takes
  no topology mapping, and for any desired pairs (none, when the topology is empty) a
  CNAME record whose value without the trailing dot starts with \<open>on.\<close> or contains
  \<open>.on.\<close> gets a delete call when its name is neither in the expected map nor in the
  retention list.
\<close>

theorem managed_is_syntactic:
  assumes zone: "getZoneId cfg zones = Some zoneId" "zoneId \<noteq> []"
    and r: "r \<in> set (listRecords refuses z zoneId)" "rec_type r = ''CNAME''"
    and managed: "startsWith (strip_trailing_dot (rec_value r)) ''on.''
                  \<or> js_includes (strip_trailing_dot (rec_value r)) ''.on.''"
    and orphan: "rec_name r \<notin> fst ` set (collect_expectedCnames cfg pairs [])"
    and not_kept: "rec_name r \<notin> set (keepSubdomains cfg)"
  shows "\<exists>ok. (DeleteRecord (rec_id r) zoneId, ok)
                 \<in> set (snd (snd (syncHetznerDns refuses cfg zones pairs z)))"
proof -
  let ?cur = "collect_currentCnames (listRecords refuses z zoneId) []"
  let ?exp = "collect_expectedCnames cfg pairs []"
  from r managed have "rec_name r \<in> fst ` set ?cur"
    by (auto simp: currentCnames_keys references_topology_def)
  then obtain v i where entry: "(rec_name r, v, i) \<in> set ?cur" by auto
  from currentCnames_entry_origin [OF entry] obtain r' where r':
    "r' \<in> set (listRecords refuses z zoneId)" "rec_name r' = rec_name r" "rec_type r' = ''CNAME''"
    "i = rec_id r'"
    by auto
  from r r' listRecords_ids [of r refuses z zoneId] listRecords_ids [of r' refuses z zoneId]
  have i: "i = rec_id r" by simp
  obtain z1 calls1 where d: "delete_orphans refuses cfg zoneId ?exp ?cur (z, []) = (z1, calls1)"
    by (cases "delete_orphans refuses cfg zoneId ?exp ?cur (z, [])") auto
  obtain z2 calls2 where u: "upsert_expected refuses zoneId ?cur ?exp (z1, calls1) = (z2, calls2)"
    by (cases "upsert_expected refuses zoneId ?cur ?exp (z1, calls1)") auto
  from delete_orphans_issues [OF entry orphan not_kept, of zoneId refuses z "[]"] d i
  obtain ok where "(DeleteRecord (rec_id r) zoneId, ok) \<in> set calls1" by auto
  with upsert_expected_keeps_calls [of calls1 refuses zoneId ?cur ?exp z1] u
  have "(DeleteRecord (rec_id r) zoneId, ok) \<in> set calls2" by auto
  with zone d u show ?thesis by (auto simp: syncHetznerDns_def Let_def)
qed

theorem delete_only_unretained_orphans_witness:
  "snd (snd (syncHetznerDns (\<lambda>req. False) example_config (Inr []) []
        [cname_rrset ''b'' ''on.y.'', cname_rrset ''d'' ''on.w.'']))
     = [(DeleteRecord ''b:CNAME'' ''z1'', True)]
   \<and> (\<exists>r \<in> set (listRecords (\<lambda>req. False)
                   [cname_rrset ''b'' ''on.y.'', cname_rrset ''d'' ''on.w.''] ''z1'').
         rec_id r = ''b:CNAME'' \<and> rec_type r = ''CNAME''
         \<and> references_topology (strip_trailing_dot (rec_value r))
         \<and> rec_name r \<notin> fst ` set (collect_expectedCnames example_config [] [])
         \<and> rec_name r \<notin> set (keepSubdomains example_config))"
proof
  show calls: "snd (snd (syncHetznerDns (\<lambda>req. False) example_config (Inr []) []
        [cname_rrset ''b'' ''on.y.'', cname_rrset ''d'' ''on.w.'']))
     = [(DeleteRecord ''b:CNAME'' ''z1'', True)]"
    by code_simp
  then have "(DeleteRecord ''b:CNAME'' ''z1'', True)
      \<in> set (snd (snd (syncHetznerDns (\<lambda>req. False) example_config (Inr []) []
              [cname_rrset ''b'' ''on.y.'', cname_rrset ''d'' ''on.w.''])))"
    by simp
  with delete_only_unretained_orphans
    [of "\<lambda>req. False" example_config "Inr []" "[]"
      "[cname_rrset ''b'' ''on.y.'', cname_rrset ''d'' ''on.w.'']"]
  show "\<exists>r \<in> set (listRecords (\<lambda>req. False)
                   [cname_rrset ''b'' ''on.y.'', cname_rrset ''d'' ''on.w.''] ''z1'').
         rec_id r = ''b:CNAME'' \<and> rec_type r = ''CNAME''
         \<and> references_topology (strip_trailing_dot (rec_value r))
         \<and> rec_name r \<notin> fst ` set (collect_expectedCnames example_config [] [])
         \<and> rec_name r \<notin> set (keepSubdomains example_config)"
    by blast
qed

theorem managed_is_syntactic_witness:
  "\<exists>ok. (DeleteRecord ''old:CNAME'' ''z1'', ok)
      \<in> set (snd (snd (syncHetznerDns (\<lambda>req. False) example_config (Inr []) []
               [cname_rrset ''old'' ''on.gone.example.com.''])))"
  using managed_is_syntactic
    [of example_config "Inr []" "''z1''"
      "\<lparr>rec_id = ''old:CNAME'', rec_name = ''old'', rec_type = ''CNAME'',
        rec_value = ''on.gone.example.com.'', rec_ttl = 3600, rec_zone_id = ''z1''\<rparr>"
      "\<lambda>req. False" "[cname_rrset ''old'' ''on.gone.example.com.'']" "[]"]
  by (simp add: example_config_def getZoneId_def listRecords_all flatten_rrset_def
      cname_rrset_def strip_trailing_dot_def startsWith_def)

text \<open>
  C3. With the managed CNAME records \<open>a \<rightarrow> on.x.\<close> and \<open>b \<rightarrow> on.y.\<close> in the zone and
  desired pairs giving the expected map \<open>{a: on.x, c: on.z}\<close> (neither name ignored,
  \<open>b\<close> not retained), the reconciler makes exactly two calls, in this order: the
  deletion of \<open>b\<close> and the creation of \<open>c\<close>; nothing is done for \<open>a\<close>, whose
  value equals the target once the trailing dot is stripped.
\<close>

theorem diff_partition:
  assumes zone: "getZoneId cfg zones = Some zoneId" "zoneId \<noteq> []"
    and listing: "\<forall>p. \<not> refuses (GetRRSets p)"
    and lists: "''a'' \<notin> set (ignoreSubdomains cfg)" "''c'' \<notin> set (ignoreSubdomains cfg)"
       "''b'' \<notin> set (keepSubdomains cfg)"
    and pa: "pair_subdomain pa = ''a''" "pair_cname_full pa = ''on.x''" "\<not> pair_is_root pa"
    and pc: "pair_subdomain pc = ''c''" "pair_cname_full pc = ''on.z''" "\<not> pair_is_root pc"
  shows "map fst (snd (snd (syncHetznerDns refuses cfg zones [pa, pc]
            [cname_rrset ''a'' ''on.x.'', cname_rrset ''b'' ''on.y.''])))
         = [DeleteRecord ''b:CNAME'' zoneId, CreateRecord zoneId ''c'' ''CNAME'' ''on.z'' 3600]"
proof -
  have cur: "collect_currentCnames
        (listRecords refuses [cname_rrset ''a'' ''on.x.'', cname_rrset ''b'' ''on.y.''] zoneId) []
      = [(''a'', ''on.x'', ''a:CNAME''), (''b'', ''on.y'', ''b:CNAME'')]"
    using listing
    by (simp add: listRecords_all flatten_rrset_def cname_rrset_def strip_trailing_dot_def
        references_topology_def startsWith_def object_set_def)
  have exp: "collect_expectedCnames cfg [pa, pc] [] = [(''a'', ''on.x''), (''c'', ''on.z'')]"
    using lists pa pc by (simp add: object_set_def)
  let ?z = "[cname_rrset ''a'' ''on.x.'', cname_rrset ''b'' ''on.y.'']"
  obtain z1 ok1 where del: "deleteRecord refuses ?z ''b:CNAME'' zoneId = (z1, ok1)"
    by (cases "deleteRecord refuses ?z ''b:CNAME'' zoneId") auto
  obtain z2 ok2 where cre: "createRecord refuses z1 zoneId ''c'' ''CNAME'' ''on.z'' 3600 = (z2, ok2)"
    by (cases "createRecord refuses z1 zoneId ''c'' ''CNAME'' ''on.z'' 3600") auto
  have phase1: "delete_orphans refuses cfg zoneId [(''a'', ''on.x''), (''c'', ''on.z'')]
        [(''a'', ''on.x'', ''a:CNAME''), (''b'', ''on.y'', ''b:CNAME'')] (?z, [])
      = (z1, [(DeleteRecord ''b:CNAME'' zoneId, ok1)])"
    using lists del by simp
  have phase2: "upsert_expected refuses zoneId
        [(''a'', ''on.x'', ''a:CNAME''), (''b'', ''on.y'', ''b:CNAME'')]
        [(''a'', ''on.x''), (''c'', ''on.z'')] (z1, [(DeleteRecord ''b:CNAME'' zoneId, ok1)])
      = (z2, [(DeleteRecord ''b:CNAME'' zoneId, ok1),
              (CreateRecord zoneId ''c'' ''CNAME'' ''on.z'' 3600, ok2)])"
    using cre by (simp add: strip_trailing_dot_def)
  show ?thesis
    using zone
    by (simp add: syncHetznerDns_def Let_def cur exp phase1 phase2
        del: delete_orphans.simps upsert_expected.simps collect_expectedCnames.simps
          collect_currentCnames.simps)
qed

theorem diff_partition_witness:
  "snd (snd (syncHetznerDns (\<lambda>req. False) example_config (Inr [])
       [example_pair ''a'' ''on.x'', example_pair ''c'' ''on.z'']
       [cname_rrset ''a'' ''on.x.'', cname_rrset ''b'' ''on.y.'']))
   = [(DeleteRecord ''b:CNAME'' ''z1'', True),
      (CreateRecord ''z1'' ''c'' ''CNAME'' ''on.z'' 3600, True)]
   \<and> map fst (snd (snd (syncHetznerDns (\<lambda>req. False) example_config (Inr [])
       [example_pair ''a'' ''on.x'', example_pair ''c'' ''on.z'']
       [cname_rrset ''a'' ''on.x.'', cname_rrset ''b'' ''on.y.''])))
   = [DeleteRecord ''b:CNAME'' ''z1'', CreateRecord ''z1'' ''c'' ''CNAME'' ''on.z'' 3600]"
proof
  show "snd (snd (syncHetznerDns (\<lambda>req. False) example_config (Inr [])
       [example_pair ''a'' ''on.x'', example_pair ''c'' ''on.z'']
       [cname_rrset ''a'' ''on.x.'', cname_rrset ''b'' ''on.y.'']))
   = [(DeleteRecord ''b:CNAME'' ''z1'', True),
      (CreateRecord ''z1'' ''c'' ''CNAME'' ''on.z'' 3600, True)]"
    by code_simp
next
  show "map fst (snd (snd (syncHetznerDns (\<lambda>req. False) example_config (Inr [])
       [example_pair ''a'' ''on.x'', example_pair ''c'' ''on.z'']
       [cname_rrset ''a'' ''on.x.'', cname_rrset ''b'' ''on.y.''])))
   = [DeleteRecord ''b:CNAME'' ''z1'', CreateRecord ''z1'' ''c'' ''CNAME'' ''on.z'' 3600]"
    by (rule diff_partition [where cfg = example_config and zones = "Inr []"])
      (simp_all add: example_config_def example_pair_def getZoneId_def)
qed

subsection \<open>The cycle\<close>

lemma broadcast_returns: "\<exists>kept. broadcast send clients = Inr kept"
proof (induction clients)
  case Nil
  show ?case by simp
next
  case (Cons ws rest)
  then obtain kept where "broadcast send rest = Inr kept" ..
  then show ?case by (cases "send ws") (simp_all add: and_then_def)
qed

lemma Logger_log_returns: "\<exists>l'. Logger_log l = Inr l'"
proof -
  obtain kept where "broadcast (ws_send l) (wsClients l) = Inr kept"
    using broadcast_returns by blast
  then show ?thesis
    by (cases "appendFileSync l") (simp_all add: Logger_log_def and_then_def)
qed

lemma runOnce_catch_returns:
  "runOnce_catch l error s =
     Inr \<lparr>success = False, summary = s\<lparr>errors := errors s @ [message error]\<rparr>\<rparr>"
proof -
  obtain l' where first: "Logger_error l = Inr l'"
    using Logger_log_returns [of l] by (auto simp: Logger_error_def)
  obtain l'' where "Logger_error l' = Inr l''"
    using Logger_log_returns [of l'] by (auto simp: Logger_error_def)
  with first show ?thesis by (simp add: runOnce_catch_def and_then_def)
qed

lemma runOnce_try_summary:
  "runOnce_try env w = (outcome, s, w', events) \<Longrightarrow> errors s = []"
  by (auto simp: runOnce_try_def Let_def split: sum.splits prod.splits)

lemma runOnce_try_result:
  assumes "getPangolinDomainCnamePairs (env_config env)
             (fst (queryTXT_no_retry (env_queryTXTOnce env)))
             (env_orgId env) (env_resources env) (env_targets env) = Inr (pairs, hostMapping)"
    and "syncHetznerDns (env_refuses env) (env_config env) (env_zones_by_name env) pairs (w_zone w)
           = (records, z', calls)"
  shows "runOnce_try env w =
     (case generateGatusConfig (env_config env) (env_generateConfig env hostMapping) pairs records of
        Inl e \<Rightarrow>
          (Inl e,
           \<lparr>pangolinMappings = length pairs, dnsRecords = length records, gatusEndpoints = 0,
            errors = []\<rparr>,
           w\<lparr>w_zone := z'\<rparr>, map (\<lambda>(c, ok). ZoneCall c ok) calls)
      | Inr endpoints \<Rightarrow>
          (case writeGatusConfig (env_yaml_dump env) (env_write_fails env) endpoints (w_file w) of
             (written, file', ev2) \<Rightarrow>
               ((case written of Inl e \<Rightarrow> Inl e | Inr _ \<Rightarrow> Inr ()),
                \<lparr>pangolinMappings = length pairs, dnsRecords = length records,
                 gatusEndpoints = length endpoints, errors = []\<rparr>,
                w\<lparr>w_zone := z', w_file := file'\<rparr>,
                map (\<lambda>(c, ok). ZoneCall c ok) calls @ ev2)))"
  using assms
  by (simp add: runOnce_try_def Let_def split: sum.splits prod.splits)

text \<open>
  C2. \<open>runOnce\<close> never lets an error reach its caller: it returns an object, whose
  \<open>success\<close> is true exactly when \<open>summary.errors\<close> is empty. When the builder throws, the
  object is \<open>{success: false}\<close> with the message of the error as the only entry of
  \<open>summary.errors\<close> and every count at 0; when the generator throws, the same with the
  counts of the pairs and of the zone records; when \<open>yaml.dump\<close> throws in the writer, the
  same with the count of the endpoints too; when none of them throws, \<open>success\<close> is true,
  the three counts are set and \<open>summary.errors\<close> is empty. (The reconciler catches its own
  errors.) The \<open>catch\<close> block itself throws nothing, whatever the clients and the log
  file of the logger do.
\<close>

theorem runOnce_catches_every_error:
  "(\<exists>r. fst (runOnce env w) = Inr r \<and> (success r \<longleftrightarrow> errors (summary r) = []))
   \<and> (\<forall>e. getPangolinDomainCnamePairs (env_config env)
             (fst (queryTXT_no_retry (env_queryTXTOnce env)))
             (env_orgId env) (env_resources env) (env_targets env) = Inl e
        \<longrightarrow> fst (runOnce env w) =
              Inr \<lparr>success = False,
                   summary = \<lparr>pangolinMappings = 0, dnsRecords = 0, gatusEndpoints = 0,
                              errors = [message e]\<rparr>\<rparr>)
   \<and> (\<forall>pairs hostMapping records z' calls.
         getPangolinDomainCnamePairs (env_config env)
           (fst (queryTXT_no_retry (env_queryTXTOnce env)))
           (env_orgId env) (env_resources env) (env_targets env) = Inr (pairs, hostMapping)
         \<and> syncHetznerDns (env_refuses env) (env_config env) (env_zones_by_name env) pairs
             (w_zone w) = (records, z', calls)
        \<longrightarrow> (\<forall>e. generateGatusConfig (env_config env) (env_generateConfig env hostMapping)
                    pairs records = Inl e
               \<longrightarrow> fst (runOnce env w) =
                     Inr \<lparr>success = False,
                          summary = \<lparr>pangolinMappings = length pairs,
                                     dnsRecords = length records, gatusEndpoints = 0,
                                     errors = [message e]\<rparr>\<rparr>)
           \<and> (\<forall>endpoints.
                 generateGatusConfig (env_config env) (env_generateConfig env hostMapping)
                   pairs records = Inr endpoints
                \<longrightarrow> (\<forall>e. env_yaml_dump env endpoints = Inl e
                       \<longrightarrow> fst (runOnce env w) =
                             Inr \<lparr>success = False,
                                  summary = \<lparr>pangolinMappings = length pairs,
                                             dnsRecords = length records,
                                             gatusEndpoints = length endpoints,
                                             errors = [message e]\<rparr>\<rparr>)
                   \<and> (\<forall>newContent. env_yaml_dump env endpoints = Inr newContent
                       \<longrightarrow> fst (runOnce env w) =
                             Inr \<lparr>success = True,
                                  summary = \<lparr>pangolinMappings = length pairs,
                                             dnsRecords = length records,
                                             gatusEndpoints = length endpoints,
                                             errors = []\<rparr>\<rparr>)))"
proof (intro conjI allI impI)
  obtain outcome s w' events where tried: "runOnce_try env w = (outcome, s, w', events)"
    by (cases "runOnce_try env w") auto
  from runOnce_try_summary [OF tried] have "errors s = []" .
  with tried show "\<exists>r. fst (runOnce env w) = Inr r \<and> (success r \<longleftrightarrow> errors (summary r) = [])"
    by (cases outcome) (simp_all add: runOnce_def runOnce_catch_returns)
next
  fix e
  assume "getPangolinDomainCnamePairs (env_config env)
            (fst (queryTXT_no_retry (env_queryTXTOnce env)))
            (env_orgId env) (env_resources env) (env_targets env) = Inl e"
  then show "fst (runOnce env w) =
      Inr \<lparr>success = False,
           summary = \<lparr>pangolinMappings = 0, dnsRecords = 0, gatusEndpoints = 0,
                      errors = [message e]\<rparr>\<rparr>"
    by (simp add: runOnce_def runOnce_try_def runOnce_catch_returns)
next
  fix pairs hostMapping records z' calls e
  assume "getPangolinDomainCnamePairs (env_config env)
            (fst (queryTXT_no_retry (env_queryTXTOnce env)))
            (env_orgId env) (env_resources env) (env_targets env) = Inr (pairs, hostMapping)
          \<and> syncHetznerDns (env_refuses env) (env_config env) (env_zones_by_name env) pairs
              (w_zone w) = (records, z', calls)"
    and "generateGatusConfig (env_config env) (env_generateConfig env hostMapping)
           pairs records = Inl e"
  then show "fst (runOnce env w) =
      Inr \<lparr>success = False,
           summary = \<lparr>pangolinMappings = length pairs, dnsRecords = length records,
                      gatusEndpoints = 0, errors = [message e]\<rparr>\<rparr>"
    by (simp add: runOnce_def runOnce_try_result runOnce_catch_returns)
next
  fix pairs hostMapping records z' calls endpoints e
  assume "getPangolinDomainCnamePairs (env_config env)
            (fst (queryTXT_no_retry (env_queryTXTOnce env)))
            (env_orgId env) (env_resources env) (env_targets env) = Inr (pairs, hostMapping)
          \<and> syncHetznerDns (env_refuses env) (env_config env) (env_zones_by_name env) pairs
              (w_zone w) = (records, z', calls)"
    and "generateGatusConfig (env_config env) (env_generateConfig env hostMapping)
           pairs records = Inr endpoints"
    and "env_yaml_dump env endpoints = Inl e"
  then show "fst (runOnce env w) =
      Inr \<lparr>success = False,
           summary = \<lparr>pangolinMappings = length pairs, dnsRecords = length records,
                      gatusEndpoints = length endpoints, errors = [message e]\<rparr>\<rparr>"
    by (simp add: runOnce_def runOnce_try_result runOnce_catch_returns writeGatusConfig_def)
next
  fix pairs hostMapping records z' calls endpoints newContent
  assume "getPangolinDomainCnamePairs (env_config env)
            (fst (queryTXT_no_retry (env_queryTXTOnce env)))
            (env_orgId env) (env_resources env) (env_targets env) = Inr (pairs, hostMapping)
          \<and> syncHetznerDns (env_refuses env) (env_config env) (env_zones_by_name env) pairs
              (w_zone w) = (records, z', calls)"
    and "generateGatusConfig (env_config env) (env_generateConfig env hostMapping)
           pairs records = Inr endpoints"
    and "env_yaml_dump env endpoints = Inr newContent"
  then show "fst (runOnce env w) =
      Inr \<lparr>success = True,
           summary = \<lparr>pangolinMappings = length pairs, dnsRecords = length records,
                      gatusEndpoints = length endpoints, errors = []\<rparr>\<rparr>"
    by (simp add: runOnce_def runOnce_try_result writeGatusConfig_def)
qed

theorem runOnce_catches_every_error_witness:
  "getPangolinDomainCnamePairs (env_config null_resource_env)
     (fst (queryTXT_no_retry (env_queryTXTOnce null_resource_env)))
     (env_orgId null_resource_env) (env_resources null_resource_env)
     (env_targets null_resource_env) = Inl (JsError ''Cannot read properties of null'')
   \<and> fst (runOnce null_resource_env example_world) =
       Inr \<lparr>success = False,
            summary = \<lparr>pangolinMappings = 0, dnsRecords = 0, gatusEndpoints = 0,
                       errors = [''Cannot read properties of null'']\<rparr>\<rparr>"
proof
  show thrown: "getPangolinDomainCnamePairs (env_config null_resource_env)
     (fst (queryTXT_no_retry (env_queryTXTOnce null_resource_env)))
     (env_orgId null_resource_env) (env_resources null_resource_env)
     (env_targets null_resource_env) = Inl (JsError ''Cannot read properties of null'')"
    by code_simp
  from runOnce_catches_every_error [of null_resource_env example_world] thrown
  have "fst (runOnce null_resource_env example_world) =
       Inr \<lparr>success = False,
            summary = \<lparr>pangolinMappings = 0, dnsRecords = 0, gatusEndpoints = 0,
                       errors = [message (JsError ''Cannot read properties of null'')]\<rparr>\<rparr>"
    by blast
  then show "fst (runOnce null_resource_env example_world) =
       Inr \<lparr>success = False,
            summary = \<lparr>pangolinMappings = 0, dnsRecords = 0, gatusEndpoints = 0,
                       errors = [''Cannot read properties of null'']\<rparr>\<rparr>"
    by simp
qed

subsection \<open>Idempotence of the cycle\<close>

lemma record_values_append:
  "record_values (xs @ ys) n = record_values xs n @ record_values ys n"
  by (simp add: record_values_def)

lemma record_values_flatten:
  "record_values (flatten_rrset zoneId rs) n =
     (if rr_type rs = ''CNAME'' \<and> rr_name rs = n
      then filter references_topology (map strip_trailing_dot (rr_values rs)) else [])"
  by (auto simp: record_values_def flatten_rrset_def filter_map comp_def)

lemma record_values_Nil: "record_values [] n = []"
  by (simp add: record_values_def)

lemma record_values_zone:
  "record_values (concat (map (flatten_rrset zoneId) z)) n = managed_values z n"
  by (induction z)
    (simp_all add: record_values_append record_values_flatten record_values_Nil
      managed_values_def)

lemma map_of_object_update:
  "map_of (map (\<lambda>(k', v'). if k' = k then (k', v) else (k', v')) obj) x =
     (if x = k \<and> k \<in> fst ` set obj then Some v else map_of obj x)"
proof (induction obj)
  case Nil
  show ?case by simp
next
  case (Cons a obj)
  obtain k' v' where a: "a = (k', v')" by (cases a) auto
  with Cons show ?case by (cases "k' = k") (force simp: image_iff)+
qed

lemma map_of_object_set: "map_of (object_set k v obj) x = ((map_of obj)(k \<mapsto> v)) x"
proof (cases "k \<in> fst ` set obj")
  case True
  then show ?thesis
    by (simp add: object_set_def map_of_object_update)
next
  case False
  then have "map_of obj k = None" by (simp add: map_of_eq_None_iff)
  with False show ?thesis
    by (cases "map_of obj x") (auto simp: object_set_def map_add_def)
qed

lemma collect_currentCnames_map_of:
  "\<forall>r \<in> set rs. rec_id r = rec_name r @ '':'' @ rec_type r \<Longrightarrow>
   map_of (collect_currentCnames rs m) n =
     (if record_values rs n = [] then map_of m n
      else Some (last (record_values rs n), n @ '':CNAME''))"
proof (induction rs arbitrary: m)
  case Nil
  show ?case by (simp add: record_values_def)
next
  case (Cons r rest)
  then have ih: "\<And>m. map_of (collect_currentCnames rest m) n =
     (if record_values rest n = [] then map_of m n
      else Some (last (record_values rest n), n @ '':CNAME''))"
    by simp
  from Cons.prems have id: "rec_id r = rec_name r @ '':'' @ rec_type r" by simp
  show ?case
  proof (cases "rec_type r = ''CNAME'' \<and> references_topology (strip_trailing_dot (rec_value r))")
    case False
    then have "record_values (r # rest) n = record_values rest n"
      by (auto simp: record_values_def)
    with False ih [of m] show ?thesis by auto
  next
    case True
    show ?thesis
    proof (cases "rec_name r = n")
      case same: True
      with True have rv: "record_values (r # rest) n
          = strip_trailing_dot (rec_value r) # record_values rest n"
        by (simp add: record_values_def)
      from True same id
      show ?thesis
        by (simp add: ih rv map_of_object_set)
    next
      case other: False
      with True have rv: "record_values (r # rest) n = record_values rest n"
        by (simp add: record_values_def)
      from True other show ?thesis
        by (simp add: ih rv map_of_object_set)
    qed
  qed
qed

lemma delete_orphans_noop:
  "\<forall>(n, v, i) \<in> set entries. n \<in> fst ` set expected \<or> n \<in> set (keepSubdomains cfg) \<Longrightarrow>
   delete_orphans refuses cfg zoneId expected entries (z, calls) = (z, calls)"
proof (induction entries)
  case Nil
  show ?case by simp
next
  case (Cons e rest)
  obtain n v i where e: "e = (n, v, i)" by (cases e) auto
  with Cons.prems have "n \<in> fst ` set expected \<or> n \<in> set (keepSubdomains cfg)" by simp
  moreover from Cons have "delete_orphans refuses cfg zoneId expected rest (z, calls) = (z, calls)"
    by simp
  ultimately show ?case using e by auto
qed

lemma upsert_expected_noop:
  "\<forall>(n, t) \<in> set expected. \<exists>i. map_of current n = Some (strip_trailing_dot t, i) \<Longrightarrow>
   upsert_expected refuses zoneId current expected (z, calls) = (z, calls)"
proof (induction expected)
  case Nil
  show ?case by simp
next
  case (Cons e rest)
  obtain n t where e: "e = (n, t)" by (cases e) auto
  with Cons.prems obtain i where "map_of current n = Some (strip_trailing_dot t, i)" by auto
  moreover from Cons have "upsert_expected refuses zoneId current rest (z, calls) = (z, calls)"
    by simp
  ultimately show ?case using e by simp
qed

lemma split_record_id:
  "CHR '':'' \<notin> set n \<Longrightarrow> split CHR '':'' (n @ '':CNAME'') = [n, ''CNAME'']"
  by (induction n) auto

lemma strip_final_value:
  "strip_trailing_dot (cname_final_value ''CNAME'' t) = strip_trailing_dot t"
proof (cases "t = []")
  case True
  then show ?thesis
    by (simp add: cname_final_value_def strip_trailing_dot_def endsWith_def)
next
  case False
  then have "endsWith t ''.'' \<longleftrightarrow> last t = CHR ''.''"
    by (cases t rule: rev_cases) (auto simp: endsWith_def)
  with False show ?thesis
    by (simp add: cname_final_value_def strip_trailing_dot_def)
qed

lemma deleteRecord_effect:
  assumes "CHR '':'' \<notin> set n" and "deleteRecord refuses z (n @ '':CNAME'') zoneId = (z', ok)"
  shows "z' = (if ok then filter (\<lambda>rs. \<not> (rr_name rs = n \<and> rr_type rs = ''CNAME'')) z else z)"
  using assms
  by (auto simp: deleteRecord_def split_record_id zone_request_result_def Let_def
      split: option.splits if_splits)

lemma managed_values_delete:
  "managed_values (filter (\<lambda>rs. \<not> (rr_name rs = n \<and> rr_type rs = ''CNAME'')) z) m =
     (if m = n then [] else managed_values z m)"
  by (induction z) (auto simp: managed_values_def)

lemma updateRecord_effect:
  assumes "updateRecord refuses z i zoneId n ''CNAME'' t ttl = (z', ok)"
  shows "z' = (if ok then map (\<lambda>rs. if rr_name rs = n \<and> rr_type rs = ''CNAME''
                                      then rs\<lparr>rr_values := [cname_final_value ''CNAME'' t]\<rparr>
                                      else rs) z
               else z)
         \<and> (ok \<longrightarrow> has_rrset z n ''CNAME'')"
  using assms
  by (auto simp: updateRecord_def zone_request_result_def split: option.splits if_splits)

lemma managed_values_update_other:
  "m \<noteq> n \<Longrightarrow>
   managed_values (map (\<lambda>rs. if rr_name rs = n \<and> rr_type rs = ''CNAME''
                              then rs\<lparr>rr_values := [v]\<rparr> else rs) z) m = managed_values z m"
  by (induction z) (auto simp: managed_values_def)

lemma managed_values_update_same:
  assumes "references_topology (strip_trailing_dot v)"
  shows "set (managed_values (map (\<lambda>rs. if rr_name rs = n \<and> rr_type rs = ''CNAME''
                              then rs\<lparr>rr_values := [v]\<rparr> else rs) z) n)
         = (if has_rrset z n ''CNAME'' then {strip_trailing_dot v} else {})"
  using assms by (induction z) (auto simp: managed_values_def has_rrset_def)

lemma createRecord_effect:
  assumes "createRecord refuses z zoneId n ''CNAME'' t ttl = (z', ok)"
  shows "z' = (if ok then z @ [\<lparr>rr_name = n, rr_type = ''CNAME'', rr_ttl = ttl,
                                 rr_values = [cname_final_value ''CNAME'' t]\<rparr>]
               else z)"
  using assms
  by (auto simp: createRecord_def zone_request_result_def split: option.splits if_splits)

lemma managed_values_create:
  "managed_values (z @ [\<lparr>rr_name = n, rr_type = ''CNAME'', rr_ttl = ttl, rr_values = [v]\<rparr>]) m =
     managed_values z m @
       (if m = n \<and> references_topology (strip_trailing_dot v) then [strip_trailing_dot v] else [])"
  by (auto simp: managed_values_def)

lemma delete_orphans_effect:
  assumes "delete_orphans refuses cfg zoneId expected entries (z, calls) = (z', calls')"
    and "\<forall>(c, ok) \<in> set calls'. ok"
    and "\<forall>(n, v, i) \<in> set entries. i = n @ '':CNAME'' \<and> CHR '':'' \<notin> set n"
  shows "managed_values z' m =
           (if m \<in> fst ` set entries \<and> m \<notin> fst ` set expected \<and> m \<notin> set (keepSubdomains cfg)
            then [] else managed_values z m)"
  using assms
proof (induction entries arbitrary: z calls)
  case Nil
  then show ?case by simp
next
  case (Cons e rest)
  obtain n v i where e: "e = (n, v, i)" by (cases e) auto
  with Cons.prems(3) have i: "i = n @ '':CNAME''" and n: "CHR '':'' \<notin> set n" by auto
  from Cons.prems(3) have rest_ids: "\<forall>(n, v, i) \<in> set rest. i = n @ '':CNAME'' \<and> CHR '':'' \<notin> set n"
    by simp
  show ?case
  proof (cases "n \<notin> fst ` set expected \<and> n \<notin> set (keepSubdomains cfg)")
    case True
    obtain z1 ok1 where d: "deleteRecord refuses z i zoneId = (z1, ok1)"
      by (cases "deleteRecord refuses z i zoneId") auto
    with Cons.prems(1) e True
    have run: "delete_orphans refuses cfg zoneId expected rest
                 (z1, calls @ [(DeleteRecord i zoneId, ok1)]) = (z', calls')"
      by simp
    from delete_orphans_keeps_calls
      [where calls = "calls @ [(DeleteRecord i zoneId, ok1)]" and refuses = refuses and cfg = cfg
        and zoneId = zoneId and expected = expected and entries = rest and z = z1] run
    have "(DeleteRecord i zoneId, ok1) \<in> set calls'" by auto
    with Cons.prems(2) have ok1 by auto
    with deleteRecord_effect [OF n, of refuses z zoneId z1 ok1] d i
    have z1: "z1 = filter (\<lambda>rs. \<not> (rr_name rs = n \<and> rr_type rs = ''CNAME'')) z" by simp
    from Cons.IH [OF run Cons.prems(2) rest_ids]
    have "managed_values z' m =
           (if m \<in> fst ` set rest \<and> m \<notin> fst ` set expected \<and> m \<notin> set (keepSubdomains cfg)
            then [] else managed_values z1 m)" .
    moreover have "managed_values z1 m = (if m = n then [] else managed_values z m)"
      unfolding z1 by (rule managed_values_delete)
    ultimately show ?thesis using True e by (cases "m = n") auto
  next
    case False
    have run: "delete_orphans refuses cfg zoneId expected rest (z, calls) = (z', calls')"
    proof (cases "n \<in> fst ` set expected")
      case True
      with Cons.prems(1) e show ?thesis by simp
    next
      case no: False
      with False have "n \<in> set (keepSubdomains cfg)" by simp
      with no Cons.prems(1) e show ?thesis by simp
    qed
    from Cons.IH [OF run Cons.prems(2) rest_ids]
    have "managed_values z' m =
           (if m \<in> fst ` set rest \<and> m \<notin> fst ` set expected \<and> m \<notin> set (keepSubdomains cfg)
            then [] else managed_values z m)" .
    with False e show ?thesis by auto
  qed
qed

lemma last_of_singleton_set: "xs \<noteq> [] \<Longrightarrow> set xs \<subseteq> {a} \<Longrightarrow> last xs = a"
  by (metis last_in_set singletonD subsetD)

lemma upsert_step:
  assumes run: "upsert_expected refuses zoneId current ((n, t) # rest) (z, calls) = (z', calls')"
    and ok: "\<forall>(c, ok) \<in> set calls'. ok"
    and managed: "references_topology (strip_trailing_dot t)"
  shows "\<exists>z1 calls1.
      upsert_expected refuses zoneId current rest (z1, calls1) = (z', calls')
      \<and> (\<forall>m. m \<noteq> n \<longrightarrow> managed_values z1 m = managed_values z m)
      \<and> ((\<exists>i. map_of current n = Some (strip_trailing_dot t, i)
              \<and> managed_values z1 n = managed_values z n)
          \<or> (managed_values z1 n \<noteq> [] \<and> last (managed_values z1 n) = strip_trailing_dot t))"
proof (cases "map_of current n")
  case None
  obtain z1 ok1 where c: "createRecord refuses z zoneId n ''CNAME'' t 3600 = (z1, ok1)"
    by (cases "createRecord refuses z zoneId n ''CNAME'' t 3600") auto
  with run None
  have run1: "upsert_expected refuses zoneId current rest
               (z1, calls @ [(CreateRecord zoneId n ''CNAME'' t 3600, ok1)]) = (z', calls')"
    by simp
  from upsert_expected_keeps_calls
    [where calls = "calls @ [(CreateRecord zoneId n ''CNAME'' t 3600, ok1)]" and refuses = refuses
      and zoneId = zoneId and current = current and expected = rest and z = z1] run1
  have "(CreateRecord zoneId n ''CNAME'' t 3600, ok1) \<in> set calls'" by auto
  with ok have ok1 by auto
  with createRecord_effect [OF c]
  have z1: "z1 = z @ [\<lparr>rr_name = n, rr_type = ''CNAME'', rr_ttl = 3600,
                        rr_values = [cname_final_value ''CNAME'' t]\<rparr>]"
    by simp
  have other: "\<forall>m. m \<noteq> n \<longrightarrow> managed_values z1 m = managed_values z m"
    unfolding z1 managed_values_create by simp
  have here: "managed_values z1 n \<noteq> [] \<and> last (managed_values z1 n) = strip_trailing_dot t"
    unfolding z1 managed_values_create using managed by (simp add: strip_final_value)
  show ?thesis
    by (rule exI [of _ z1], rule exI [of _ "calls @ [(CreateRecord zoneId n ''CNAME'' t 3600, ok1)]"])
      (use run1 other here in simp)
next
  case (Some a)
  obtain v i where a: "a = (v, i)" by (cases a) auto
  show ?thesis
  proof (cases "v = strip_trailing_dot t")
    case True
    with run Some a
    have run1: "upsert_expected refuses zoneId current rest (z, calls) = (z', calls')"
      by simp
    show ?thesis
      by (rule exI [of _ z], rule exI [of _ calls]) (use run1 Some a True in simp)
  next
    case False
    obtain z1 ok1 where u: "updateRecord refuses z i zoneId n ''CNAME'' t 3600 = (z1, ok1)"
      by (cases "updateRecord refuses z i zoneId n ''CNAME'' t 3600") auto
    with run Some a False
    have run1: "upsert_expected refuses zoneId current rest
                 (z1, calls @ [(UpdateRecord i zoneId n ''CNAME'' t 3600, ok1)]) = (z', calls')"
      by simp
    from upsert_expected_keeps_calls
      [where calls = "calls @ [(UpdateRecord i zoneId n ''CNAME'' t 3600, ok1)]"
        and refuses = refuses and zoneId = zoneId and current = current and expected = rest
        and z = z1] run1
    have "(UpdateRecord i zoneId n ''CNAME'' t 3600, ok1) \<in> set calls'" by auto
    with ok have ok1 by auto
    with updateRecord_effect [OF u]
    have z1: "z1 = map (\<lambda>rs. if rr_name rs = n \<and> rr_type rs = ''CNAME''
                               then rs\<lparr>rr_values := [cname_final_value ''CNAME'' t]\<rparr>
                               else rs) z"
      and has: "has_rrset z n ''CNAME''"
      by simp_all
    have other: "\<forall>m. m \<noteq> n \<longrightarrow> managed_values z1 m = managed_values z m"
      unfolding z1 by (simp add: managed_values_update_other)
    from managed have "references_topology (strip_trailing_dot (cname_final_value ''CNAME'' t))"
      by (simp add: strip_final_value)
    from managed_values_update_same [OF this, of n z] has
    have seteq: "set (managed_values z1 n) = {strip_trailing_dot t}"
      by (simp only: z1 strip_final_value if_True)
    then have ne: "managed_values z1 n \<noteq> []"
      by (cases "managed_values z1 n") simp_all
    have "last (managed_values z1 n) = strip_trailing_dot t"
      by (rule last_of_singleton_set [OF ne]) (simp only: seteq subset_refl)
    with ne have here: "managed_values z1 n \<noteq> [] \<and> last (managed_values z1 n) = strip_trailing_dot t"
      by (rule conjI)
    show ?thesis
      by (rule exI [of _ z1],
          rule exI [of _ "calls @ [(UpdateRecord i zoneId n ''CNAME'' t 3600, ok1)]"])
        (use run1 other here in simp)
  qed
qed


lemma upsert_expected_effect:
  assumes "upsert_expected refuses zoneId current expected (z, calls) = (z', calls')"
    and "\<forall>(c, ok) \<in> set calls'. ok"
    and "distinct (map fst expected)"
    and "\<forall>(n, t) \<in> set expected. references_topology (strip_trailing_dot t)"
  shows "(\<forall>m. m \<notin> fst ` set expected \<longrightarrow> managed_values z' m = managed_values z m)
       \<and> (\<forall>(n, t) \<in> set expected.
            (\<exists>i. map_of current n = Some (strip_trailing_dot t, i)
                  \<and> managed_values z' n = managed_values z n)
            \<or> (managed_values z' n \<noteq> [] \<and> last (managed_values z' n) = strip_trailing_dot t))"
  using assms
proof (induction expected arbitrary: z calls)
  case Nil
  then show ?case by simp
next
  case (Cons e rest)
  obtain n t where e: "e = (n, t)" by (cases e) auto
  from Cons.prems(3) e have fresh: "n \<notin> fst ` set rest" and dist: "distinct (map fst rest)"
    by auto
  from Cons.prems(4) e have managed: "references_topology (strip_trailing_dot t)"
    and rest_managed: "\<forall>(n, t) \<in> set rest. references_topology (strip_trailing_dot t)"
    by auto
  from Cons.prems(1) e
  have "upsert_expected refuses zoneId current ((n, t) # rest) (z, calls) = (z', calls')"
    by simp
  from upsert_step [OF this Cons.prems(2) managed]
  obtain z1 calls1 where
    run: "upsert_expected refuses zoneId current rest (z1, calls1) = (z', calls')"
    and other: "\<forall>m. m \<noteq> n \<longrightarrow> managed_values z1 m = managed_values z m"
    and here: "(\<exists>i. map_of current n = Some (strip_trailing_dot t, i)
              \<and> managed_values z1 n = managed_values z n)
          \<or> (managed_values z1 n \<noteq> [] \<and> last (managed_values z1 n) = strip_trailing_dot t)"
    by blast
  from Cons.IH [OF run Cons.prems(2) dist rest_managed]
  have ih1: "\<forall>m. m \<notin> fst ` set rest \<longrightarrow> managed_values z' m = managed_values z1 m"
    and ih2: "\<forall>(n, t) \<in> set rest.
            (\<exists>i. map_of current n = Some (strip_trailing_dot t, i)
                  \<and> managed_values z' n = managed_values z1 n)
            \<or> (managed_values z' n \<noteq> [] \<and> last (managed_values z' n) = strip_trailing_dot t)"
    by simp_all
  from ih1 fresh have same_n: "managed_values z' n = managed_values z1 n" by simp
  have part1: "\<forall>m. m \<notin> fst ` set (e # rest) \<longrightarrow> managed_values z' m = managed_values z m"
  proof (intro allI impI)
    fix m
    assume "m \<notin> fst ` set (e # rest)"
    with e have "m \<noteq> n" "m \<notin> fst ` set rest" by auto
    with ih1 other show "managed_values z' m = managed_values z m" by simp
  qed
  have here': "(\<exists>i. map_of current n = Some (strip_trailing_dot t, i)
                  \<and> managed_values z' n = managed_values z n)
            \<or> (managed_values z' n \<noteq> [] \<and> last (managed_values z' n) = strip_trailing_dot t)"
    using here by (simp only: same_n)
  have rest': "\<forall>(n', t') \<in> set rest.
            (\<exists>i. map_of current n' = Some (strip_trailing_dot t', i)
                  \<and> managed_values z' n' = managed_values z n')
            \<or> (managed_values z' n' \<noteq> [] \<and> last (managed_values z' n') = strip_trailing_dot t')"
  proof (intro ballI, clarify)
    fix n' t'
    assume in_rest: "(n', t') \<in> set rest"
      and no: "\<not> (managed_values z' n' \<noteq> [] \<and> last (managed_values z' n') = strip_trailing_dot t')"
    from in_rest fresh have "n' \<noteq> n" by (auto simp: image_iff)
    with other have eq: "managed_values z1 n' = managed_values z n'" by simp
    from ih2 in_rest no
    have "\<exists>i. map_of current n' = Some (strip_trailing_dot t', i)
                  \<and> managed_values z' n' = managed_values z1 n'"
      by blast
    then show "\<exists>i. map_of current n' = Some (strip_trailing_dot t', i)
                  \<and> managed_values z' n' = managed_values z n'"
      by (simp only: eq)
  qed
  from part1 here' rest' e show ?case by simp
qed

lemma distinct_object_set:
  "distinct (map fst obj) \<Longrightarrow> distinct (map fst (object_set k v obj))"
proof (cases "k \<in> fst ` set obj")
  case True
  then have "map fst (object_set k v obj) = map fst obj"
    by (simp only: object_set_def if_True map_fst_object_update)
  moreover assume "distinct (map fst obj)"
  ultimately show ?thesis by simp
next
  case False
  assume "distinct (map fst obj)"
  with False show ?thesis by (simp add: object_set_def)
qed

lemma expectedCnames_distinct:
  "distinct (map fst m) \<Longrightarrow> distinct (map fst (collect_expectedCnames cfg pairs m))"
  by (induction pairs arbitrary: m) (simp_all add: distinct_object_set)

lemma expectedCnames_targets:
  "(n, t) \<in> set (collect_expectedCnames cfg pairs m) \<Longrightarrow>
   (n, t) \<in> set m \<or> t \<in> pair_cname_full ` set pairs"
proof (induction pairs arbitrary: m)
  case Nil
  then show ?case by simp
next
  case (Cons p rest)
  let ?m' = "object_set (if pair_is_root p then ''@'' else pair_subdomain p) (pair_cname_full p) m"
  from Cons.prems
  have "(n, t) \<in> set (collect_expectedCnames cfg rest m)
        \<or> (n, t) \<in> set (collect_expectedCnames cfg rest ?m')"
    by (simp split: if_splits)
  then show ?case
  proof
    assume "(n, t) \<in> set (collect_expectedCnames cfg rest m)"
    from Cons.IH [OF this] show ?thesis by auto
  next
    assume "(n, t) \<in> set (collect_expectedCnames cfg rest ?m')"
    from Cons.IH [OF this]
      set_object_set [of "if pair_is_root p then ''@'' else pair_subdomain p" "pair_cname_full p" m]
    show ?thesis by auto
  qed
qed

lemma flatten_names:
  "r \<in> set (concat (map (flatten_rrset zoneId) z)) \<Longrightarrow>
   \<exists>rs \<in> set z. rec_name r = rr_name rs \<and> rec_id r = rec_name r @ '':'' @ rec_type r"
  by (auto simp: flatten_rrset_def)

lemma currentCnames_of_zone:
  assumes listing: "\<forall>p. \<not> refuses (GetRRSets p)"
  shows "map_of (collect_currentCnames (listRecords refuses z zoneId) []) n =
           (if managed_values z n = [] then None
            else Some (last (managed_values z n), n @ '':CNAME''))"
proof -
  have ids: "\<forall>r \<in> set (listRecords refuses z zoneId). rec_id r = rec_name r @ '':'' @ rec_type r"
    using listRecords_ids by blast
  from collect_currentCnames_map_of [OF ids, of "[]" n]
  show ?thesis
    by (simp add: listRecords_all [OF listing] record_values_zone)
qed

lemma currentCnames_entries_of_zone:
  assumes listing: "\<forall>p. \<not> refuses (GetRRSets p)"
    and wf: "\<forall>rs \<in> set z. CHR '':'' \<notin> set (rr_name rs)"
    and entry: "(n, v, i) \<in> set (collect_currentCnames (listRecords refuses z zoneId) [])"
  shows "i = n @ '':CNAME'' \<and> CHR '':'' \<notin> set n"
proof -
  from currentCnames_entry_origin [OF entry]
  obtain r where r: "r \<in> set (listRecords refuses z zoneId)" "rec_name r = n"
      "rec_type r = ''CNAME''" "i = rec_id r"
    by auto
  from r(1) have "r \<in> set (concat (map (flatten_rrset zoneId) z))"
    by (simp add: listRecords_all [OF listing])
  from flatten_names [OF this] obtain rs where "rs \<in> set z" "rec_name r = rr_name rs"
      "rec_id r = rec_name r @ '':'' @ rec_type r"
    by auto
  with r wf show ?thesis by auto
qed

lemma map_of_key: "(n \<in> fst ` set m) = (map_of m n \<noteq> None)"
  by (simp add: map_of_eq_None_iff)

lemma sync_idempotent:
  assumes listing: "\<forall>p. \<not> refuses (GetRRSets p)"
    and wf: "\<forall>rs \<in> set z. CHR '':'' \<notin> set (rr_name rs)"
    and targets: "\<forall>p \<in> set pairs. references_topology (strip_trailing_dot (pair_cname_full p))"
    and run: "syncHetznerDns refuses cfg zones pairs z = (records, z', calls)"
    and ok: "\<forall>(c, ok) \<in> set calls. ok"
  shows "syncHetznerDns refuses cfg zones pairs z' = (records, z', [])"
proof (cases "getZoneId cfg zones")
  case None
  with run show ?thesis by (simp add: syncHetznerDns_def)
next
  case (Some zoneId)
  show ?thesis
  proof (cases "zoneId = []")
    case True
    with Some run show ?thesis by (simp add: syncHetznerDns_def)
  next
    case False
    let ?cur = "collect_currentCnames (listRecords refuses z zoneId) []"
    let ?cur' = "collect_currentCnames (listRecords refuses z' zoneId) []"
    let ?exp = "collect_expectedCnames cfg pairs []"
    obtain z1 calls1 where d: "delete_orphans refuses cfg zoneId ?exp ?cur (z, []) = (z1, calls1)"
      by (cases "delete_orphans refuses cfg zoneId ?exp ?cur (z, [])") auto
    obtain z2 calls2 where u: "upsert_expected refuses zoneId ?cur ?exp (z1, calls1) = (z2, calls2)"
      by (cases "upsert_expected refuses zoneId ?cur ?exp (z1, calls1)") auto
    from Some False d u
    have "syncHetznerDns refuses cfg zones pairs z = (listRecords refuses z2 zoneId, z2, calls2)"
      by (simp add: syncHetznerDns_def Let_def
          del: delete_orphans.simps upsert_expected.simps collect_expectedCnames.simps
            collect_currentCnames.simps)
    with run have "(records, z', calls) = (listRecords refuses z2 zoneId, z2, calls2)"
      by (simp only:)
    then have res: "records = listRecords refuses z2 zoneId" "z' = z2" "calls = calls2"
      by blast+
    from ok res have ok2: "\<forall>(c, ok) \<in> set calls2. ok" by simp
    with upsert_expected_keeps_calls [of calls1 refuses zoneId ?cur ?exp z1] u
    have ok1: "\<forall>(c, ok) \<in> set calls1. ok" by auto
    have ids: "\<forall>(n, v, i) \<in> set ?cur. i = n @ '':CNAME'' \<and> CHR '':'' \<notin> set n"
      using currentCnames_entries_of_zone [OF listing wf] by blast
    have exp_distinct: "distinct (map fst ?exp)"
      by (rule expectedCnames_distinct) simp
    have exp_managed: "\<forall>(n, t) \<in> set ?exp. references_topology (strip_trailing_dot t)"
    proof (intro ballI, clarify)
      fix n t
      assume "(n, t) \<in> set ?exp"
      from expectedCnames_targets [OF this] targets
      show "references_topology (strip_trailing_dot t)" by auto
    qed
    have after_delete: "\<And>m. managed_values z1 m =
           (if m \<in> fst ` set ?cur \<and> m \<notin> fst ` set ?exp \<and> m \<notin> set (keepSubdomains cfg)
            then [] else managed_values z m)"
      by (rule delete_orphans_effect [OF d ok1 ids])
    from upsert_expected_effect [OF u ok2 exp_distinct exp_managed]
    have untouched: "\<forall>m. m \<notin> fst ` set ?exp \<longrightarrow> managed_values z2 m = managed_values z1 m"
      and converged: "\<forall>(n, t) \<in> set ?exp.
            (\<exists>i. map_of ?cur n = Some (strip_trailing_dot t, i)
                  \<and> managed_values z2 n = managed_values z1 n)
            \<or> (managed_values z2 n \<noteq> [] \<and> last (managed_values z2 n) = strip_trailing_dot t)"
      by simp_all
    have cur_key: "\<And>m. (m \<in> fst ` set ?cur) = (managed_values z m \<noteq> [])"
      by (simp add: map_of_key currentCnames_of_zone [OF listing])
    have cur'_key: "\<And>m. (m \<in> fst ` set ?cur') = (managed_values z2 m \<noteq> [])"
      by (simp add: map_of_key currentCnames_of_zone [OF listing] res)
    have no_orphans: "\<forall>(n, v, i) \<in> set ?cur'.
        n \<in> fst ` set ?exp \<or> n \<in> set (keepSubdomains cfg)"
    proof (intro ballI, clarify)
      fix n v i
      assume entry: "(n, v, i) \<in> set ?cur'"
        and not_kept: "n \<notin> set (keepSubdomains cfg)"
      from entry have "n \<in> fst ` set ?cur'" by force
      with cur'_key [of n] have present: "managed_values z2 n \<noteq> []" by blast
      show "n \<in> fst ` set ?exp"
      proof (rule ccontr)
        assume "n \<notin> fst ` set ?exp"
        with untouched present have "managed_values z1 n \<noteq> []" by simp
        with after_delete [of n] \<open>n \<notin> fst ` set ?exp\<close> not_kept cur_key [of n]
        show False by (auto split: if_splits)
      qed
    qed
    have all_present: "\<forall>(n, t) \<in> set ?exp. \<exists>i. map_of ?cur' n = Some (strip_trailing_dot t, i)"
    proof (intro ballI, clarify)
      fix n t
      assume in_exp: "(n, t) \<in> set ?exp"
      then have key: "n \<in> fst ` set ?exp" by force
      from converged in_exp
      have "(\<exists>i. map_of ?cur n = Some (strip_trailing_dot t, i)
                  \<and> managed_values z2 n = managed_values z1 n)
            \<or> (managed_values z2 n \<noteq> [] \<and> last (managed_values z2 n) = strip_trailing_dot t)"
        by auto
      then have "managed_values z2 n \<noteq> [] \<and> last (managed_values z2 n) = strip_trailing_dot t"
      proof
        assume "\<exists>i. map_of ?cur n = Some (strip_trailing_dot t, i)
                  \<and> managed_values z2 n = managed_values z1 n"
        then obtain i where was: "map_of ?cur n = Some (strip_trailing_dot t, i)"
          and same: "managed_values z2 n = managed_values z1 n"
          by blast
        from key after_delete [of n] have "managed_values z1 n = managed_values z n" by simp
        with same have eq: "managed_values z2 n = managed_values z n" by simp
        from was have "managed_values z n \<noteq> [] \<and> last (managed_values z n) = strip_trailing_dot t"
          by (simp add: currentCnames_of_zone [OF listing] split: if_splits)
        then show ?thesis by (simp add: eq)
      next
        assume "managed_values z2 n \<noteq> [] \<and> last (managed_values z2 n) = strip_trailing_dot t"
        then show ?thesis .
      qed
      then show "\<exists>i. map_of ?cur' n = Some (strip_trailing_dot t, i)"
        by (simp add: currentCnames_of_zone [OF listing] res)
    qed
    have d2: "delete_orphans refuses cfg zoneId ?exp ?cur' (z', []) = (z', [])"
      by (rule delete_orphans_noop [OF no_orphans])
    have u2: "upsert_expected refuses zoneId ?cur' ?exp (z', []) = (z', [])"
      by (rule upsert_expected_noop [OF all_present])
    from Some False d2 u2 res show ?thesis
      by (simp add: syncHetznerDns_def Let_def
          del: delete_orphans.simps upsert_expected.simps collect_expectedCnames.simps
            collect_currentCnames.simps)
  qed
qed

lemma parse_entries_keys:
  "parse_entries entries m = Inr hostMapping \<Longrightarrow>
   \<forall>k \<in> fst ` set m. startsWith k ''on.'' \<Longrightarrow>
   \<forall>k \<in> fst ` set hostMapping. startsWith k ''on.''"
proof (induction entries arbitrary: m)
  case Nil
  then show ?case by simp
next
  case (Cons entry rest)
  show ?case
  proof (cases "js_includes (trim entry) '':''")
    case False
    with Cons.prems(1) have "parse_entries rest m = Inr hostMapping" by simp
    from Cons.IH [OF this Cons.prems(2)] show ?thesis .
  next
    case True
    show ?thesis
    proof (cases "take 2 (split CHR '':'' (trim entry))")
      case Nil
      with True Cons.prems(1) show ?thesis by simp
    next
      case (Cons hostname more)
      note parts = this
      show ?thesis
      proof (cases more)
        case Nil
        with True parts Cons.prems(1) show ?thesis by simp
      next
        case (Cons ip more')
        have "more' = []"
        proof -
          have "length (take 2 (split CHR '':'' (trim entry))) \<le> 2" by simp
          with parts Cons show ?thesis by simp
        qed
        with parts Cons have two: "take 2 (split CHR '':'' (trim entry)) = [hostname, ip]" by simp
        show ?thesis
        proof (cases "ipToSubnet (trim ip)")
          case None
          with True two \<open>parse_entries (entry # rest) m = Inr hostMapping\<close>
          have "parse_entries rest m = Inr hostMapping" by (simp add: Let_def)
          from Cons.IH [OF this Cons.prems(2)] show ?thesis .
        next
          case (Some subnet)
          let ?m' = "object_set (''on.'' @ trim hostname) subnet m"
          from Some True two \<open>parse_entries (entry # rest) m = Inr hostMapping\<close>
          have run: "parse_entries rest ?m' = Inr hostMapping" by (simp add: Let_def)
          have "\<forall>k \<in> fst ` set ?m'. startsWith k ''on.''"
            using Cons.prems(2) by (simp add: fst_set_object_set startsWith_def)
          from Cons.IH [OF run this] show ?thesis .
        qed
      qed
    qed
  qed
qed

lemma getHostSubnetMapping_keys:
  "getHostSubnetMapping query = Inr hostMapping \<Longrightarrow>
   \<forall>k \<in> fst ` set hostMapping. startsWith k ''on.''"
proof -
  assume a: "getHostSubnetMapping query = Inr hostMapping"
  show ?thesis
  proof (cases query)
    case (Inl thrown)
    with a have "hostMapping = []"
      by (cases thrown) (simp_all add: getHostSubnetMapping_def)
    then show ?thesis by simp
  next
    case (Inr txtData)
    show ?thesis
    proof (cases "parse_entries (split CHR '','' txtData) []")
      case (Inl e)
      with Inr a have "hostMapping = []" by (simp add: getHostSubnetMapping_def)
      then show ?thesis by simp
    next
      case parsed: (Inr mapping)
      with Inr a have "mapping = hostMapping" by (simp add: getHostSubnetMapping_def)
      with parsed parse_entries_keys [of "split CHR '','' txtData" "[]" hostMapping]
      show ?thesis by simp
    qed
  qed
qed

lemma getCnameForIp_key: "getCnameForIp ip hostMapping = Some c \<Longrightarrow> c \<in> fst ` set hostMapping"
  by (induction hostMapping) (auto split: if_splits)

lemma build_pairs_targets:
  "build_pairs cfg api_targets hostMapping resources pairs = Inr result \<Longrightarrow>
   p \<in> set result \<Longrightarrow>
   p \<in> set pairs \<or> (\<exists>c \<in> fst ` set hostMapping. pair_cname_full p = c @ ''.'' @ cfg_domain cfg)"
proof (induction resources arbitrary: pairs)
  case Nil
  then show ?case by simp
next
  case (Cons element rest)
  show ?case
  proof (cases element)
    case None
    with Cons.prems show ?thesis by simp
  next
    case (Some resource)
    have "build_pairs cfg api_targets hostMapping rest pairs = Inr result
          \<or> (\<exists>c \<in> fst ` set hostMapping. \<exists>q. pair_cname_full q = c @ ''.'' @ cfg_domain cfg
                \<and> build_pairs cfg api_targets hostMapping rest (pairs @ [q]) = Inr result)"
      using Cons.prems(1) Some
      by (auto simp: Let_def dest: getCnameForIp_key split: if_splits option.splits sum.splits)
    then show ?thesis
    proof
      assume "build_pairs cfg api_targets hostMapping rest pairs = Inr result"
      from Cons.IH [OF this Cons.prems(2)] show ?thesis .
    next
      assume "\<exists>c \<in> fst ` set hostMapping. \<exists>q. pair_cname_full q = c @ ''.'' @ cfg_domain cfg
                \<and> build_pairs cfg api_targets hostMapping rest (pairs @ [q]) = Inr result"
      then obtain c q where c: "c \<in> fst ` set hostMapping"
        and q: "pair_cname_full q = c @ ''.'' @ cfg_domain cfg"
        and b: "build_pairs cfg api_targets hostMapping rest (pairs @ [q]) = Inr result"
        by blast
      from Cons.IH [OF b Cons.prems(2)] c q show ?thesis by auto
    qed
  qed
qed

lemma topology_target_is_managed:
  assumes "startsWith c ''on.''"
  shows "references_topology (strip_trailing_dot (c @ ''.'' @ d))"
proof -
  from assms have "c = ''on.'' @ drop 3 c"
    by (metis append_take_drop_id length_Cons list.size(3) numeral_3_eq_3 startsWith_def)
  then obtain c' where c: "c = ''on.'' @ c'" ..
  let ?x = "c' @ ''.'' @ d"
  have x: "?x \<noteq> []" by simp
  have "strip_trailing_dot (''on.'' @ ?x) = ''on.'' @ (if last ?x = CHR ''.'' then butlast ?x else ?x)"
    using x by (simp add: strip_trailing_dot_def butlast_append)
  then have "startsWith (strip_trailing_dot (''on.'' @ ?x)) ''on.''"
    by (simp add: startsWith_def)
  with c show ?thesis by (simp add: references_topology_def)
qed

lemma pairs_reference_topology:
  assumes "getPangolinDomainCnamePairs cfg query orgId resources api_targets = Inr (pairs, hostMapping)"
  shows "\<forall>p \<in> set pairs. references_topology (strip_trailing_dot (pair_cname_full p))"
proof (cases "getHostSubnetMapping query")
  case (Inl e)
  with assms show ?thesis by (simp add: getPangolinDomainCnamePairs_def)
next
  case (Inr hm)
  from getHostSubnetMapping_keys [OF Inr] have keys: "\<forall>k \<in> fst ` set hm. startsWith k ''on.''" .
  from assms Inr
  have "pairs = [] \<or> build_pairs cfg api_targets hm resources [] = Inr pairs"
    by (auto simp: getPangolinDomainCnamePairs_def split: if_splits option.splits sum.splits)
  then show ?thesis
  proof
    assume "pairs = []"
    then show ?thesis by simp
  next
    assume built: "build_pairs cfg api_targets hm resources [] = Inr pairs"
    show ?thesis
    proof
      fix p
      assume "p \<in> set pairs"
      with build_pairs_targets [OF built, of p]
      obtain c where "c \<in> fst ` set hm" "pair_cname_full p = c @ ''.'' @ cfg_domain cfg"
        by auto
      with keys topology_target_is_managed [of c "cfg_domain cfg"]
      show "references_topology (strip_trailing_dot (pair_cname_full p))" by auto
    qed
  qed
qed

lemma writeGatusConfig_again:
  assumes "writeGatusConfig dump fails endpoints file = (written, file', evs)"
    and "\<forall>ev \<in> set evs. event_ok ev"
  shows "\<exists>written'. writeGatusConfig dump fails endpoints file' = (written', file', [])
           \<and> (case written of Inl e \<Rightarrow> written' = Inl e | Inr b \<Rightarrow> \<exists>b'. written' = Inr b')"
  using assms
  by (auto simp: writeGatusConfig_def split: sum.splits if_splits)

lemma zone_calls_ok:
  assumes "\<forall>ev \<in> set (map (\<lambda>(c, ok). ZoneCall c ok) calls @ evs). event_ok ev"
  shows "(\<forall>(c, ok) \<in> set calls. ok) \<and> (\<forall>ev \<in> set evs. event_ok ev)"
proof (intro conjI ballI)
  fix x
  assume x: "x \<in> set calls"
  obtain c ok where c: "x = (c, ok)" by (cases x) auto
  with x have "ZoneCall c ok \<in> set (map (\<lambda>(c, ok). ZoneCall c ok) calls @ evs)" by force
  with assms have "event_ok (ZoneCall c ok)" by blast
  with c show "case x of (c, ok) \<Rightarrow> ok" by simp
next
  fix ev
  assume "ev \<in> set evs"
  with assms show "event_ok ev" by simp
qed

lemma runOnce_try_idempotent:
  assumes listing: "\<forall>p. \<not> env_refuses env (GetRRSets p)"
    and wf: "\<forall>rs \<in> set (w_zone w). CHR '':'' \<notin> set (rr_name rs)"
    and run: "runOnce_try env w = (outcome, s, w', events)"
    and ok: "\<forall>ev \<in> set events. event_ok ev"
  shows "runOnce_try env w' = (outcome, s, w', [])"
proof (cases "getPangolinDomainCnamePairs (env_config env)
    (fst (queryTXT_no_retry (env_queryTXTOnce env)))
    (env_orgId env) (env_resources env) (env_targets env)")
  case (Inl e)
  with run have "w' = w" "events = []"
    by (simp_all add: runOnce_try_def)
  with run show ?thesis by simp
next
  case (Inr a)
  obtain pairs hostMapping where a: "a = (pairs, hostMapping)" by (cases a) auto
  with Inr have built: "getPangolinDomainCnamePairs (env_config env)
      (fst (queryTXT_no_retry (env_queryTXTOnce env)))
      (env_orgId env) (env_resources env) (env_targets env) = Inr (pairs, hostMapping)"
    by simp
  obtain records z' calls where
    sync: "syncHetznerDns (env_refuses env) (env_config env) (env_zones_by_name env) pairs (w_zone w)
          = (records, z', calls)"
    by (cases "syncHetznerDns (env_refuses env) (env_config env) (env_zones_by_name env) pairs
          (w_zone w)") auto
  note first = runOnce_try_result [OF built sync]
  show ?thesis
  proof (cases "generateGatusConfig (env_config env) (env_generateConfig env hostMapping)
      pairs records")
    case gen: (Inl e)
    with first run have res: "w' = w\<lparr>w_zone := z'\<rparr>"
        "events = map (\<lambda>(c, ok). ZoneCall c ok) calls"
        "outcome = Inl e"
        "s = \<lparr>pangolinMappings = length pairs, dnsRecords = length records,
              gatusEndpoints = 0, errors = []\<rparr>"
      by simp_all
    from ok res(2) zone_calls_ok [of calls "[]"] have "\<forall>(c, ok) \<in> set calls. ok" by simp
    from sync_idempotent [OF listing wf pairs_reference_topology [OF built] sync this]
    have "syncHetznerDns (env_refuses env) (env_config env) (env_zones_by_name env) pairs (w_zone w')
            = (records, z', [])"
      by (simp add: res(1))
    from runOnce_try_result [OF built this] gen res show ?thesis
      by simp
  next
    case gen: (Inr endpoints)
    obtain written file' ev2 where
      wr: "writeGatusConfig (env_yaml_dump env) (env_write_fails env) endpoints (w_file w)
             = (written, file', ev2)"
      by (cases "writeGatusConfig (env_yaml_dump env) (env_write_fails env) endpoints (w_file w)")
        auto
    with first run gen have res: "w' = w\<lparr>w_zone := z', w_file := file'\<rparr>"
        "events = map (\<lambda>(c, ok). ZoneCall c ok) calls @ ev2"
        "outcome = (case written of Inl e \<Rightarrow> Inl e | Inr _ \<Rightarrow> Inr ())"
        "s = \<lparr>pangolinMappings = length pairs, dnsRecords = length records,
              gatusEndpoints = length endpoints, errors = []\<rparr>"
      by simp_all
    from ok res(2) zone_calls_ok [of calls ev2]
    have calls_ok: "\<forall>(c, ok) \<in> set calls. ok" and ev2_ok: "\<forall>ev \<in> set ev2. event_ok ev"
      by simp_all
    from sync_idempotent [OF listing wf pairs_reference_topology [OF built] sync calls_ok]
    have sync2: "syncHetznerDns (env_refuses env) (env_config env) (env_zones_by_name env) pairs
        (w_zone w') = (records, z', [])"
      by (simp add: res(1))
    from writeGatusConfig_again [OF wr ev2_ok]
    obtain written' where
      wr2: "writeGatusConfig (env_yaml_dump env) (env_write_fails env) endpoints (w_file w')
              = (written', file', [])"
      and same: "case written of Inl e \<Rightarrow> written' = Inl e | Inr b \<Rightarrow> \<exists>b'. written' = Inr b'"
      by (auto simp: res(1))
    from runOnce_try_result [OF built sync2] gen wr2 same res show ?thesis
      by (auto split: sum.splits)
  qed
qed

text \<open>
  C1 as stated: for every fixed set of external inputs the second of two cycles in
  succession makes no zone call. With a zone service that serves the listing and refuses
  every change, the first cycle's \<open>createRecord\<close> for \<open>app\<close> fails, the zone stays as it
  was, and the second cycle makes the same call again.
\<close>

theorem second_run_repeats_refused_create:
  "snd (snd (runOnce read_only_env (fst (snd (runOnce read_only_env empty_world)))))
     = [ZoneCall (CreateRecord ''z1'' ''app'' ''CNAME'' ''on.alpha.example.com'' 3600) False]"
  by code_simp

text \<open>
  C1, amended. Let the zone service serve every listing request and let no record name of
  the zone contain a colon. If every zone call and every file write of a cycle succeeded,
  then a second cycle on the same external inputs, started in the state the first one
  left, makes no zone call and no file write (the serialized content equals the file),
  returns the same result and leaves the zone and the file as they are.
\<close>

theorem runOnce_idempotent:
  assumes listing: "\<forall>p. \<not> env_refuses env (GetRRSets p)"
    and wf: "\<forall>rs \<in> set (w_zone w). CHR '':'' \<notin> set (rr_name rs)"
    and run: "runOnce env w = (r, w', events)"
    and ok: "\<forall>ev \<in> set events. event_ok ev"
  shows "runOnce env w' = (r, w', [])"
proof -
  obtain outcome s where tried: "runOnce_try env w = (outcome, s, w', events)"
    and r: "r = (case outcome of
                   Inr _ \<Rightarrow> Inr \<lparr>success = True, summary = s\<rparr>
                 | Inl error \<Rightarrow> runOnce_catch (env_logger env) error s)"
    using run by (cases "runOnce_try env w") (auto simp: runOnce_def)
  from runOnce_try_idempotent [OF listing wf tried ok]
  have "runOnce_try env w' = (outcome, s, w', [])" .
  with r show ?thesis by (simp add: runOnce_def)
qed

theorem runOnce_idempotent_witness:
  "runOnce example_env example_world =
     (Inr \<lparr>success = True,
           summary = \<lparr>pangolinMappings = 1, dnsRecords = 3, gatusEndpoints = 3, errors = []\<rparr>\<rparr>,
      \<lparr>w_zone =
         [cname_rrset ''d'' ''on.beta.example.com.'',
          \<lparr>rr_name = ''www'', rr_type = ''A'', rr_ttl = 300, rr_values = [''192.0.2.7'']\<rparr>,
          cname_rrset ''app'' ''on.alpha.example.com.''],
       w_file = Some ''Appdwww''\<rparr>,
      [ZoneCall (DeleteRecord ''old:CNAME'' ''z1'') True,
       ZoneCall (CreateRecord ''z1'' ''app'' ''CNAME'' ''on.alpha.example.com'' 3600) True,
       FileWrite ''Appdwww'' True])
   \<and> runOnce example_env
        \<lparr>w_zone =
           [cname_rrset ''d'' ''on.beta.example.com.'',
            \<lparr>rr_name = ''www'', rr_type = ''A'', rr_ttl = 300, rr_values = [''192.0.2.7'']\<rparr>,
            cname_rrset ''app'' ''on.alpha.example.com.''],
         w_file = Some ''Appdwww''\<rparr> =
     (Inr \<lparr>success = True,
           summary = \<lparr>pangolinMappings = 1, dnsRecords = 3, gatusEndpoints = 3, errors = []\<rparr>\<rparr>,
      \<lparr>w_zone =
         [cname_rrset ''d'' ''on.beta.example.com.'',
          \<lparr>rr_name = ''www'', rr_type = ''A'', rr_ttl = 300, rr_values = [''192.0.2.7'']\<rparr>,
          cname_rrset ''app'' ''on.alpha.example.com.''],
       w_file = Some ''Appdwww''\<rparr>,
      [])"
proof
  show run: "runOnce example_env example_world =
     (Inr \<lparr>success = True,
           summary = \<lparr>pangolinMappings = 1, dnsRecords = 3, gatusEndpoints = 3, errors = []\<rparr>\<rparr>,
      \<lparr>w_zone =
         [cname_rrset ''d'' ''on.beta.example.com.'',
          \<lparr>rr_name = ''www'', rr_type = ''A'', rr_ttl = 300, rr_values = [''192.0.2.7'']\<rparr>,
          cname_rrset ''app'' ''on.alpha.example.com.''],
       w_file = Some ''Appdwww''\<rparr>,
      [ZoneCall (DeleteRecord ''old:CNAME'' ''z1'') True,
       ZoneCall (CreateRecord ''z1'' ''app'' ''CNAME'' ''on.alpha.example.com'' 3600) True,
       FileWrite ''Appdwww'' True])"
    by code_simp
  have listing: "\<forall>p. \<not> env_refuses example_env (GetRRSets p)"
    by (simp add: example_env_def)
  have wf: "\<forall>rs \<in> set (w_zone example_world). CHR '':'' \<notin> set (rr_name rs)"
    by (simp add: example_world_def cname_rrset_def)
  have ok: "\<forall>ev \<in> set [ZoneCall (DeleteRecord ''old:CNAME'' ''z1'') True,
       ZoneCall (CreateRecord ''z1'' ''app'' ''CNAME'' ''on.alpha.example.com'' 3600) True,
       FileWrite ''Appdwww'' True]. event_ok ev"
    by simp
  show "runOnce example_env
        \<lparr>w_zone =
           [cname_rrset ''d'' ''on.beta.example.com.'',
            \<lparr>rr_name = ''www'', rr_type = ''A'', rr_ttl = 300, rr_values = [''192.0.2.7'']\<rparr>,
            cname_rrset ''app'' ''on.alpha.example.com.''],
         w_file = Some ''Appdwww''\<rparr> =
     (Inr \<lparr>success = True,
           summary = \<lparr>pangolinMappings = 1, dnsRecords = 3, gatusEndpoints = 3, errors = []\<rparr>\<rparr>,
      \<lparr>w_zone =
         [cname_rrset ''d'' ''on.beta.example.com.'',
          \<lparr>rr_name = ''www'', rr_type = ''A'', rr_ttl = 300, rr_values = [''192.0.2.7'']\<rparr>,
          cname_rrset ''app'' ''on.alpha.example.com.''],
       w_file = Some ''Appdwww''\<rparr>,
      [])"
    by (rule runOnce_idempotent [OF listing wf run ok])
qed

end
